theory Spec2Isabelle
  imports Main "HOL-Library.Word" "HOL-Library.Monad_Syntax"
begin

unbundle bit_operations_syntax

section \<open>Data model of the dual mode keyboard application\<close>

text \<open>
  The development follows \<^verbatim>\<open>hid/dual_mode_keyboard/keyboard.c\<close>. The C integer
  types are machine words: \<^verbatim>\<open>uint8_t\<close> and \<^verbatim>\<open>BYTE\<close> are \<open>8 word\<close>,
  \<^verbatim>\<open>int16_t\<close> is \<open>16 word\<close> read with \<open>sint\<close>. The integer promotions of C
  are written out: an \<^verbatim>\<open>int16_t\<close> operand is read as an \<open>int\<close>, the operation is done
  on \<open>int\<close>, and the result is converted back with \<open>word_of_int\<close> (reduction modulo
  \<open>2 ^ 16\<close>, as the compiler of the firmware does).
\<close>

type_synonym uint8_t = "8 word"
type_synonym int16_t = "16 word"

text \<open>
  An entry of the event queue. The event type tag of the C structure
  (\<^verbatim>\<open>eventInfo.eventType\<close>) is the constructor; a key event carries
  \<^verbatim>\<open>keyCode\<close> and \<^verbatim>\<open>upDownFlag\<close>, in this order, a scroll event its
  \<^verbatim>\<open>motion\<close>, any other tag only its value.
\<close>

datatype HidEvent =
    HID_EVENT_KEY_STATE_CHANGE uint8_t uint8_t
  | HID_EVENT_MOTION_AXIS_0 int16_t
  | HID_EVENT_EVENT_FIFO_OVERFLOW
  | HID_EVENT_USER_DEFINED uint8_t

text \<open>The key types of the key configuration table (\<^verbatim>\<open>kbKeyConfig[i].type\<close>).\<close>

datatype KeyType =
    KEY_TYPE_NONE
  | KEY_TYPE_STD
  | KEY_TYPE_MODIFIER
  | KEY_TYPE_BIT_MAPPED
  | KEY_TYPE_SLEEP
  | KEY_TYPE_FUNC_LOCK
  | KEY_TYPE_FUNC_LOCK_DEP
  | KEY_TYPE_USER_DEF uint8_t

datatype FuncLockKeyPosition = FUNC_LOCK_KEY_UP | FUNC_LOCK_KEY_DOWN

datatype ConnectButtonPosition = CONNECT_BUTTON_UP | CONNECT_BUTTON_DOWN

datatype PinEntryMode =
    PIN_ENTRY_MODE_NONE
  | LEGACY_PIN_ENTRY_IN_PROGRESS
  | PASS_KEY_ENTRY_IN_PROGRESS

text \<open>The key entry events handed to \<^verbatim>\<open>kbapp_pinEntryEvent\<close>, in column order of
  \<^verbatim>\<open>pinCodeEventTransTab\<close>.\<close>

datatype KeyEntryEvent =
    KEY_ENTRY_EVENT_START
  | KEY_ENTRY_EVENT_CHAR
  | KEY_ENTRY_EVENT_BACKSPACE
  | KEY_ENTRY_EVENT_RESTART
  | KEY_ENTRY_EVENT_STOP

text \<open>The codes stored in \<^verbatim>\<open>pinCodeEventTransTab\<close>.\<close>

datatype PinEventCode =
    PIN_ENTRY_EVENT_INVALID
  | PIN_ENTRY_EVENT_CHAR
  | PIN_ENTRY_EVENT_BACKSPACE
  | PIN_ENTRY_EVENT_RESTART
  | PASS_KEY_ENTRY_EVENT_START
  | PASS_KEY_ENTRY_EVENT_CHAR
  | PASS_KEY_ENTRY_EVENT_BACKSPACE
  | PASS_KEY_ENTRY_EVENT_RESTART
  | PASS_KEY_ENTRY_EVENT_STOP

text \<open>
  The value of \<^verbatim>\<open>wiced_hidd_host_transport()\<close>: the transport of the current host,
  if there is one.
\<close>

datatype HostTransport = BT_TRANSPORT_NONE | BT_TRANSPORT_BR_EDR | BT_TRANSPORT_LE

text \<open>
  The byte \<^verbatim>\<open>blekb_scroll_rpt\<close> that \<^verbatim>\<open>kbapp_scrollRptSend\<close> transmits on LE: one
  of the two constants of the header, or zero.
\<close>

datatype BlekbScrollRpt = SCROLL_REPORT_VOLUME_UP | SCROLL_REPORT_VOLUME_DOWN | SCROLL_REPORT_ZERO

text \<open>
  What leaves the module. Every call into the link library, the keyscan driver or the
  pairing code is appended to a log kept in the state, so that "a report is sent" is a
  statement about that log. A report constructor stands for the call that transmits the
  report on the active transport (\<^verbatim>\<open>wiced_ble_hidd_link_send_report\<close> on LE,
  \<^verbatim>\<open>wiced_bt_hidd_send_data\<close> on BR/EDR) and carries the report data held in the
  state at that moment. The scroll report is the one report whose data depend on the
  transport: \<open>SendScrollRpt\<close> is the report sent on BR/EDR, \<open>SendScrollRptLE\<close> a byte
  sent on LE.
\<close>

datatype HidEffect =
    SendStdRpt uint8_t "uint8_t list"
  | SendRolloverRpt uint8_t "uint8_t list"
  | SendBitRpt "uint8_t list"
  | SendSlpRpt uint8_t
  | SendFuncLockRpt uint8_t
  | SendScrollRpt int16_t
  | SendScrollRptLE BlekbScrollRpt
  | SendPinRpt uint8_t
  | KeyscanReset
  | ActivityDetected
  | VirtualCableUnplug
  | EnterPairing
  | PinCode "uint8_t list"
  | PassCode "uint8_t list"
  | PassCodeKeyPressReport uint8_t
  | Disconnect
  | RegisterReportModeGattMap
  | RegisterBootModeGattMap

text \<open>
  The configuration the file links against: the fields of \<^verbatim>\<open>kbAppConfig\<close> that the
  modelled functions read, the key configuration table \<^verbatim>\<open>kbKeyConfig\<close> with its size
  variable, and the constants of the headers that are declared outside the file
  (\<^verbatim>\<open>KB_MAX_KEYS\<close>, \<^verbatim>\<open>END_OF_SCAN_CYCLE\<close>, \<^verbatim>\<open>KB_MAX_FUNC_LOCK_DEP_KEYS\<close>,
  the byte values of the pin entry codes and of the pin entry modes). An entry of \<open>kbKeyConfig\<close> is the pair of
  its \<^verbatim>\<open>type\<close> and its \<^verbatim>\<open>translationValue\<close>.
\<close>

record KbAppConfig =
  stdRptID :: uint8_t
  maxKeysInStdRpt :: uint8_t
  bitReportID :: uint8_t
  numBitMappedKeys :: uint8_t
  sleepReportID :: uint8_t
  pinReportID :: uint8_t
  scrollReportID :: uint8_t
  connectButtonScanIndex :: uint8_t
  recoveryPollCount :: uint8_t
  negateScroll :: uint8_t
  scrollScale :: uint8_t
  pollsToKeepFracScrollData :: uint8_t
  kbKeyConfig :: "(KeyType \<times> uint8_t) list"
  kbKeyConfig_size :: uint8_t
  KB_MAX_KEYS :: uint8_t
  END_OF_SCAN_CYCLE :: uint8_t
  KB_MAX_FUNC_LOCK_DEP_KEYS :: nat
  pinEventCode :: "PinEventCode \<Rightarrow> uint8_t"
  pinEntryModeValue :: "PinEntryMode \<Rightarrow> uint8_t"

text \<open>
  The application state \<^verbatim>\<open>tKbAppState\<close> together with the globals of the file that
  the modelled functions write (\<^verbatim>\<open>kbapp_protocol\<close>, \<^verbatim>\<open>kbapp_funcLock_state\<close>,
  \<^verbatim>\<open>blinkingStartup\<close>). The fields of the nested report structures are flattened,
  \<open>stdRpt_keyCodes\<close> being \<^verbatim>\<open>stdRpt.keyCodes\<close>. An array is a list whose length is the
  declared size of the array; a flag that the code sets to \<^verbatim>\<open>TRUE\<close> or \<^verbatim>\<open>FALSE\<close>
  only is a \<open>bool\<close>. \<open>host_transport\<close> is what \<^verbatim>\<open>wiced_hidd_host_transport()\<close>
  returns, a state of the link library that the module reads; \<open>effects\<close> is the log of
  calls that leave the module.
\<close>

record KbAppState =
  eventQueue :: "HidEvent list"
  stdRpt_reportID :: uint8_t
  stdRpt_modifierKeys :: uint8_t
  stdRpt_reserved :: uint8_t
  stdRpt_keyCodes :: "uint8_t list"
  rolloverRpt_modifierKeys :: uint8_t
  rolloverRpt_keyCodes :: "uint8_t list"
  bitMappedReport_reportID :: uint8_t
  bitMappedReport_bitMappedKeys :: "uint8_t list"
  slpRpt_reportID :: uint8_t
  slpRpt_sleepVal :: uint8_t
  funcLockRpt_status :: uint8_t
  scrollReport_reportID :: uint8_t
  scrollReport_motionAxis0 :: int16_t
  pinReport_reportID :: uint8_t
  pinReport_reportCode :: uint8_t
  funcLockInfo_state :: uint8_t
  funcLockInfo_kepPosition :: FuncLockKeyPosition
  funcLockInfo_toggleStateOnKeyUp :: bool
  keysInStdRpt :: uint8_t
  modKeysInStdRpt :: uint8_t
  keysInBitRpt :: uint8_t
  recoveryInProgress :: uint8_t
  stdRptChanged :: bool
  bitRptChanged :: bool
  slpRptChanged :: bool
  funcLockRptChanged :: bool
  scrollRptChanged :: bool
  pinRptChanged :: bool
  scrollFractional :: int16_t
  pollsSinceScroll :: uint8_t
  scrollEvent_motion :: int16_t
  pinCodeEntryInProgress :: PinEntryMode
  enterKeyPressed :: uint8_t
  pinCodeSize :: uint8_t
  maxPinCodeSize :: uint8_t
  pinCodeBuffer :: "uint8_t list"
  kbapp_protocol :: uint8_t
  kbapp_funcLock_state :: uint8_t
  blinkingStartup :: uint8_t
  host_transport :: HostTransport
  effects :: "HidEffect list"

section \<open>Scroll scaling\<close>

text \<open>
  \<^verbatim>\<open>kbapp_scaleValue(int16_t *val, uint8_t scaleFactor)\<close>. The result is the pair of
  the returned quotient and the value left in \<^verbatim>\<open>*val\<close>. Both shifts are done on the
  promoted \<^verbatim>\<open>int\<close>: the right shift is arithmetic, the left shift multiplies by a power
  of two, and a shift count of 32 or more has no defined result (\<open>None\<close>).
\<close>

definition kbapp_scaleValue :: "int16_t \<Rightarrow> uint8_t \<Rightarrow> (int16_t \<times> int16_t) option" where
  "kbapp_scaleValue val scaleFactor =
     (if 32 \<le> unat scaleFactor then None
      else
        let result0 = (if sint val < 0 then word_of_int (- sint val) else val) :: int16_t;
            result1 = word_of_int (drop_bit (unat scaleFactor) (sint result0)) :: int16_t
        in if result1 \<noteq> 0
           then
             let result2 = (if sint val < 0 then word_of_int (- sint result1) else result1) :: int16_t
             in Some (result2,
                      word_of_int (sint val - push_bit (unat scaleFactor) (sint result2)))
           else Some (result1, val))"

text \<open>
  \<^verbatim>\<open>kbapp_pollActivityScroll\<close>. \<open>scrollCurrent\<close> is what \<^verbatim>\<open>scroll_getCount()\<close>
  returned in this poll; \<open>add_event\<close> is the queueing function of the HID library,
  \<^verbatim>\<open>wiced_hidd_event_queue_add_event_with_overflow\<close>, on the queue contents.
\<close>

definition kbapp_pollActivityScroll ::
  "KbAppConfig \<Rightarrow> (HidEvent \<Rightarrow> HidEvent list \<Rightarrow> HidEvent list) \<Rightarrow> int16_t
     \<Rightarrow> KbAppState \<Rightarrow> KbAppState option" where
  "kbapp_pollActivityScroll cfg add_event scrollCurrent0 s =
     (if scrollCurrent0 \<noteq> 0 then
        let scrollCurrent =
              (if negateScroll cfg \<noteq> 0 then word_of_int (- sint scrollCurrent0) else scrollCurrent0)
        in do {
          s1 \<leftarrow>
            (if scrollScale cfg \<noteq> 0 then
               let acc = (word_of_int (sint (scrollFractional s) + sint scrollCurrent) :: int16_t)
               in do {
                 (q, r) \<leftarrow> kbapp_scaleValue acc (scrollScale cfg);
                 Some (s\<lparr>scrollFractional := r, scrollEvent_motion := q, pollsSinceScroll := 0\<rparr>)
               }
             else Some (s\<lparr>scrollEvent_motion := scrollCurrent\<rparr>));
          Some (s1\<lparr>eventQueue :=
                  add_event (HID_EVENT_MOTION_AXIS_0 (scrollEvent_motion s1)) (eventQueue s1)\<rparr>)
        }
      else if pollsToKeepFracScrollData cfg \<noteq> 0 then
        (if pollsToKeepFracScrollData cfg \<le> pollsSinceScroll s + 1
         then Some (s\<lparr>scrollFractional := 0, pollsSinceScroll := 0\<rparr>)
         else Some (s\<lparr>pollsSinceScroll := pollsSinceScroll s + 1\<rparr>))
      else Some s)"


section \<open>Constants of the headers\<close>

text \<open>
  The file compares against constants that its headers declare. Their values are fixed
  here; the USB usage codes are those of the HID usage tables.
\<close>

definition KEY_DOWN :: uint8_t where
  \<comment> \<open>Modelled from the spec: the up/down flag of a key event; the trace at the queueing
      site prints "Up" for a non-zero flag, so down is 0.\<close>
  "KEY_DOWN = 0"

definition PROTOCOL_BOOT :: uint8_t where
  \<comment> \<open>Modelled from the spec: the host-settable protocol, boot = 0.\<close>
  "PROTOCOL_BOOT = 0"

definition PROTOCOL_REPORT :: uint8_t where
  \<comment> \<open>Modelled from the spec: the host-settable protocol, report = 1.\<close>
  "PROTOCOL_REPORT = 1"

definition HID_PAR_PROTOCOL_REPORT :: uint8_t where
  \<comment> \<open>Modelled from the spec: the protocol value of a set-protocol request, report = 1.\<close>
  "HID_PAR_PROTOCOL_REPORT = 1"

definition FUNC_LOCK_STATE_OFF :: uint8_t where
  \<comment> \<open>Modelled from the spec: the lock-state bit of the func-lock report, off = 0.\<close>
  "FUNC_LOCK_STATE_OFF = 0"

definition FUNC_LOCK_STATE_ON :: uint8_t where
  \<comment> \<open>Modelled from the spec: the lock-state bit of the func-lock report, on = 1.\<close>
  "FUNC_LOCK_STATE_ON = 1"

definition USB_USAGE_1 :: uint8_t where "USB_USAGE_1 = 0x1E"
definition USB_USAGE_9 :: uint8_t where "USB_USAGE_9 = 0x26"
definition USB_USAGE_0 :: uint8_t where "USB_USAGE_0 = 0x27"
definition USB_USAGE_ENTER :: uint8_t where "USB_USAGE_ENTER = 0x28"
definition USB_USAGE_ESCAPE :: uint8_t where "USB_USAGE_ESCAPE = 0x29"
definition USB_USAGE_BACKSPACE :: uint8_t where "USB_USAGE_BACKSPACE = 0x2A"
definition USB_USAGE_DELETE :: uint8_t where "USB_USAGE_DELETE = 0x4C"
definition USB_USAGE_KP_ENTER :: uint8_t where "USB_USAGE_KP_ENTER = 0x58"
definition USB_USAGE_KP_1 :: uint8_t where "USB_USAGE_KP_1 = 0x59"
definition USB_USAGE_KP_9 :: uint8_t where "USB_USAGE_KP_9 = 0x61"
definition USB_USAGE_KP_0 :: uint8_t where "USB_USAGE_KP_0 = 0x62"
definition USB_USAGE_F1 :: uint8_t where "USB_USAGE_F1 = 0x3A"
definition USB_USAGE_F2 :: uint8_t where "USB_USAGE_F2 = 0x3B"
definition USB_USAGE_F3 :: uint8_t where "USB_USAGE_F3 = 0x3C"
definition USB_USAGE_F4 :: uint8_t where "USB_USAGE_F4 = 0x3D"
definition USB_USAGE_F5 :: uint8_t where "USB_USAGE_F5 = 0x3E"
definition USB_USAGE_F6 :: uint8_t where "USB_USAGE_F6 = 0x3F"
definition USB_USAGE_F7 :: uint8_t where "USB_USAGE_F7 = 0x40"
definition USB_USAGE_F8 :: uint8_t where "USB_USAGE_F8 = 0x41"
definition USB_USAGE_F9 :: uint8_t where "USB_USAGE_F9 = 0x42"
definition USB_USAGE_F10 :: uint8_t where "USB_USAGE_F10 = 0x43"
definition USB_USAGE_F11 :: uint8_t where "USB_USAGE_F11 = 0x44"
definition USB_USAGE_F12 :: uint8_t where "USB_USAGE_F12 = 0x45"
definition USB_USAGE_POWER :: uint8_t where "USB_USAGE_POWER = 0x66"

text \<open>
  \<^verbatim>\<open>kbFuncLockDepKeyTransTab\<close>: the bit-mapped report code and the standard report
  code of each func-lock dependent key. The array has \<^verbatim>\<open>KB_MAX_FUNC_LOCK_DEP_KEYS\<close>
  entries; those past the initialisers are zero, and an index past the array is an
  out-of-bounds read (\<open>None\<close>).
\<close>

definition kbFuncLockDepKeyTransTab :: "(uint8_t \<times> uint8_t) list" where
  "kbFuncLockDepKeyTransTab =
     [(0x03, USB_USAGE_F1), (0x05, USB_USAGE_F2), (0x08, USB_USAGE_F3), (0x06, USB_USAGE_F4),
      (0x09, USB_USAGE_F5), (0x0D, USB_USAGE_F6), (0x0B, USB_USAGE_F7), (0x0E, USB_USAGE_F8),
      (0x0C, USB_USAGE_F9), (0x11, USB_USAGE_F10), (0x10, USB_USAGE_F11), (0x0F, USB_USAGE_F12),
      (0x0, USB_USAGE_POWER)]"

definition kbFuncLockDepKeyTransTab_at :: "KbAppConfig \<Rightarrow> nat \<Rightarrow> (uint8_t \<times> uint8_t) option" where
  "kbFuncLockDepKeyTransTab_at cfg i =
     (if i < length kbFuncLockDepKeyTransTab then Some (kbFuncLockDepKeyTransTab ! i)
      else if i < KB_MAX_FUNC_LOCK_DEP_KEYS cfg then Some (0, 0)
      else None)"

text \<open>\<^verbatim>\<open>pinCodeEventTransTab[row][keyEntry]\<close>.\<close>

fun pinCodeEventTransTab :: "nat \<Rightarrow> KeyEntryEvent \<Rightarrow> PinEventCode" where
  "pinCodeEventTransTab 0 KEY_ENTRY_EVENT_START = PIN_ENTRY_EVENT_INVALID"
| "pinCodeEventTransTab 0 KEY_ENTRY_EVENT_CHAR = PIN_ENTRY_EVENT_CHAR"
| "pinCodeEventTransTab 0 KEY_ENTRY_EVENT_BACKSPACE = PIN_ENTRY_EVENT_BACKSPACE"
| "pinCodeEventTransTab 0 KEY_ENTRY_EVENT_RESTART = PIN_ENTRY_EVENT_RESTART"
| "pinCodeEventTransTab 0 KEY_ENTRY_EVENT_STOP = PIN_ENTRY_EVENT_INVALID"
| "pinCodeEventTransTab (Suc n) KEY_ENTRY_EVENT_START = PASS_KEY_ENTRY_EVENT_START"
| "pinCodeEventTransTab (Suc n) KEY_ENTRY_EVENT_CHAR = PASS_KEY_ENTRY_EVENT_CHAR"
| "pinCodeEventTransTab (Suc n) KEY_ENTRY_EVENT_BACKSPACE = PASS_KEY_ENTRY_EVENT_BACKSPACE"
| "pinCodeEventTransTab (Suc n) KEY_ENTRY_EVENT_RESTART = PASS_KEY_ENTRY_EVENT_RESTART"
| "pinCodeEventTransTab (Suc n) KEY_ENTRY_EVENT_STOP = PASS_KEY_ENTRY_EVENT_STOP"

text \<open>
  \<^verbatim>\<open>kbKeyConfig[keyCode]\<close>: the entry of the key configuration table, or \<open>None\<close> for
  an index past the table.
\<close>

definition kbKeyConfig_at :: "KbAppConfig \<Rightarrow> uint8_t \<Rightarrow> (KeyType \<times> uint8_t) option" where
  "kbKeyConfig_at cfg keyCode =
     (if unat keyCode < length (kbKeyConfig cfg) then Some (kbKeyConfig cfg ! unat keyCode)
      else None)"

text \<open>
  The power-on value of the state: \<^verbatim>\<open>dual_mode_keyboard_application_state = {0, }\<close>
  with the initialisers of the globals, before a host is connected. The arguments are the
  declared sizes of the three arrays.
\<close>

definition dual_mode_keyboard_application_state :: "nat \<Rightarrow> nat \<Rightarrow> nat \<Rightarrow> KbAppState" where
  "dual_mode_keyboard_application_state nKeyCodes nBitMappedKeys nPinCodeBuffer =
     \<lparr>eventQueue = [],
      stdRpt_reportID = 0, stdRpt_modifierKeys = 0, stdRpt_reserved = 0,
      stdRpt_keyCodes = replicate nKeyCodes 0,
      rolloverRpt_modifierKeys = 0, rolloverRpt_keyCodes = replicate nKeyCodes 0,
      bitMappedReport_reportID = 0, bitMappedReport_bitMappedKeys = replicate nBitMappedKeys 0,
      slpRpt_reportID = 0, slpRpt_sleepVal = 0,
      funcLockRpt_status = 0,
      scrollReport_reportID = 0, scrollReport_motionAxis0 = 0,
      pinReport_reportID = 0, pinReport_reportCode = 0,
      funcLockInfo_state = 0, funcLockInfo_kepPosition = FUNC_LOCK_KEY_UP,
      funcLockInfo_toggleStateOnKeyUp = False,
      keysInStdRpt = 0, modKeysInStdRpt = 0, keysInBitRpt = 0,
      recoveryInProgress = 0,
      stdRptChanged = False, bitRptChanged = False, slpRptChanged = False,
      funcLockRptChanged = False, scrollRptChanged = False, pinRptChanged = False,
      scrollFractional = 0, pollsSinceScroll = 0, scrollEvent_motion = 0,
      pinCodeEntryInProgress = PIN_ENTRY_MODE_NONE, enterKeyPressed = 0,
      pinCodeSize = 0, maxPinCodeSize = 0, pinCodeBuffer = replicate nPinCodeBuffer 0,
      kbapp_protocol = PROTOCOL_REPORT, kbapp_funcLock_state = 0, blinkingStartup = 6,
      host_transport = BT_TRANSPORT_NONE, effects = []\<rparr>"

section \<open>Transmitting reports\<close>

text \<open>
  Each send function clears the report's changed flag and hands the report to the
  transport. The snapshot of the Bluetooth clock taken by \<^verbatim>\<open>kbapp_stdRptSend\<close> and
  the copies into the GATT attribute buffers are not part of the model.
\<close>

definition kbapp_stdRptSend :: "KbAppState \<Rightarrow> KbAppState" where
  "kbapp_stdRptSend s =
     s\<lparr>stdRptChanged := False,
       effects := effects s @ [SendStdRpt (stdRpt_modifierKeys s) (stdRpt_keyCodes s)]\<rparr>"

definition kbapp_stdRptRolloverSend :: "KbAppState \<Rightarrow> KbAppState" where
  "kbapp_stdRptRolloverSend s =
     s\<lparr>effects := effects s @ [SendRolloverRpt (rolloverRpt_modifierKeys s) (rolloverRpt_keyCodes s)]\<rparr>"

definition kbapp_bitRptSend :: "KbAppState \<Rightarrow> KbAppState" where
  "kbapp_bitRptSend s =
     s\<lparr>bitRptChanged := False,
       effects := effects s @ [SendBitRpt (bitMappedReport_bitMappedKeys s)]\<rparr>"

definition kbapp_slpRptSend :: "KbAppState \<Rightarrow> KbAppState" where
  "kbapp_slpRptSend s =
     s\<lparr>slpRptChanged := False, effects := effects s @ [SendSlpRpt (slpRpt_sleepVal s)]\<rparr>"

definition kbapp_funcLockRptSend :: "KbAppState \<Rightarrow> KbAppState" where
  "kbapp_funcLockRptSend s =
     s\<lparr>funcLockRptChanged := False, effects := effects s @ [SendFuncLockRpt (funcLockRpt_status s)]\<rparr>"

text \<open>
  \<^verbatim>\<open>kbapp_scrollRptSend\<close>. On LE the report is a pulse: the volume up byte for a
  positive motion and the volume down byte otherwise, followed by a zero byte. On BR/EDR
  the scroll report itself is sent.
\<close>

definition kbapp_scrollRptSend :: "KbAppState \<Rightarrow> KbAppState" where
  "kbapp_scrollRptSend s =
     (let s1 = s\<lparr>scrollRptChanged := False\<rparr>
      in if host_transport s1 = BT_TRANSPORT_LE then
           let blekb_scroll_rpt =
                 (if 0 <s scrollReport_motionAxis0 s1 then SCROLL_REPORT_VOLUME_UP
                  else SCROLL_REPORT_VOLUME_DOWN)
           in s1\<lparr>effects := effects s1
                   @ [SendScrollRptLE blekb_scroll_rpt, SendScrollRptLE SCROLL_REPORT_ZERO]\<rparr>
         else s1\<lparr>effects := effects s1 @ [SendScrollRpt (scrollReport_motionAxis0 s1)]\<rparr>)"

definition kbapp_pinRptSend :: "KbAppState \<Rightarrow> KbAppState" where
  "kbapp_pinRptSend s =
     s\<lparr>pinRptChanged := False, effects := effects s @ [SendPinRpt (pinReport_reportCode s)]\<rparr>"

text \<open>\<^verbatim>\<open>kbapp_txModifiedKeyReports\<close>.\<close>

definition kbapp_txModifiedKeyReports :: "KbAppState \<Rightarrow> KbAppState" where
  "kbapp_txModifiedKeyReports s =
     (if recoveryInProgress s = 0 then
        let s1 = (if stdRptChanged s then kbapp_stdRptSend s else s)
        in if kbapp_protocol s1 = PROTOCOL_REPORT then
             let s2 = (if bitRptChanged s1 then kbapp_bitRptSend s1 else s1);
                 s3 = (if slpRptChanged s2 then kbapp_slpRptSend s2 else s2);
                 s4 = (if funcLockRptChanged s3 then kbapp_funcLockRptSend s3 else s3)
             in (if scrollRptChanged s4 then kbapp_scrollRptSend s4 else s4)
           else s1
      else s)"

section \<open>Clearing reports\<close>

definition kbapp_stdRptClear :: "KbAppConfig \<Rightarrow> KbAppState \<Rightarrow> KbAppState" where
  "kbapp_stdRptClear cfg s =
     s\<lparr>modKeysInStdRpt := 0, keysInStdRpt := 0,
       stdRpt_reportID := stdRptID cfg, stdRpt_modifierKeys := 0, stdRpt_reserved := 0,
       stdRpt_keyCodes := replicate (length (stdRpt_keyCodes s)) 0\<rparr>"

definition kbapp_slpRptClear :: "KbAppConfig \<Rightarrow> KbAppState \<Rightarrow> KbAppState" where
  "kbapp_slpRptClear cfg s = s\<lparr>slpRpt_reportID := sleepReportID cfg, slpRpt_sleepVal := 0\<rparr>"

definition kbapp_bitRptClear :: "KbAppConfig \<Rightarrow> KbAppState \<Rightarrow> KbAppState" where
  "kbapp_bitRptClear cfg s =
     s\<lparr>keysInBitRpt := 0, bitMappedReport_reportID := bitReportID cfg,
       bitMappedReport_bitMappedKeys := replicate (length (bitMappedReport_bitMappedKeys s)) 0\<rparr>"

definition kbapp_scrollRptClear :: "KbAppConfig \<Rightarrow> KbAppState \<Rightarrow> KbAppState" where
  "kbapp_scrollRptClear cfg s =
     s\<lparr>scrollReport_motionAxis0 := 0, scrollReport_reportID := scrollReportID cfg,
       scrollRptChanged := False\<rparr>"

definition kbapp_pinRptClear :: "KbAppConfig \<Rightarrow> KbAppState \<Rightarrow> KbAppState" where
  "kbapp_pinRptClear cfg s = s\<lparr>pinReport_reportID := pinReportID cfg, pinReport_reportCode := 0\<rparr>"

definition kbapp_clearAllReports :: "KbAppConfig \<Rightarrow> KbAppState \<Rightarrow> KbAppState" where
  "kbapp_clearAllReports cfg s =
     (let s1 = kbapp_scrollRptClear cfg
                 (kbapp_pinRptClear cfg
                    (kbapp_slpRptClear cfg (kbapp_bitRptClear cfg (kbapp_stdRptClear cfg s))))
      in s1\<lparr>bitRptChanged := False, slpRptChanged := False, stdRptChanged := False,
            pinRptChanged := False, scrollRptChanged := False, funcLockRptChanged := False\<rparr>)"

text \<open>\<^verbatim>\<open>kbapp_flushUserInput\<close>; the flush of the event queue empties it.\<close>

definition kbapp_flushUserInput :: "KbAppConfig \<Rightarrow> KbAppState \<Rightarrow> KbAppState" where
  "kbapp_flushUserInput cfg s =
     (kbapp_clearAllReports cfg (s\<lparr>scrollFractional := 0, recoveryInProgress := 0\<rparr>))
       \<lparr>eventQueue := []\<rparr>"

section \<open>The error response\<close>

definition kbapp_connectButtonPressed :: "KbAppState \<Rightarrow> KbAppState" where
  "kbapp_connectButtonPressed s =
     s\<lparr>blinkingStartup := 0, effects := effects s @ [VirtualCableUnplug, EnterPairing]\<rparr>"

definition kbapp_connectButtonHandler :: "ConnectButtonPosition \<Rightarrow> KbAppState \<Rightarrow> KbAppState" where
  "kbapp_connectButtonHandler connectButtonPosition s =
     (if connectButtonPosition = CONNECT_BUTTON_DOWN then kbapp_connectButtonPressed s else s)"

text \<open>\<^verbatim>\<open>kbapp_stdErrResp\<close>, statement by statement.\<close>

definition kbapp_stdErrResp :: "KbAppConfig \<Rightarrow> KbAppState \<Rightarrow> KbAppState" where
  "kbapp_stdErrResp cfg s =
     (let s1 = kbapp_clearAllReports cfg s;
          s2 = s1\<lparr>funcLockInfo_kepPosition := FUNC_LOCK_KEY_UP\<rparr>;
          s3 = (if recoveryInProgress s2 = 0 then kbapp_stdRptRolloverSend s2 else s2);
          s4 = s3\<lparr>recoveryInProgress := recoveryPollCount cfg\<rparr>;
          s5 = s4\<lparr>stdRptChanged := True, bitRptChanged := True, slpRptChanged := True\<rparr>
      in kbapp_connectButtonHandler CONNECT_BUTTON_UP s5)"

text \<open>
  \<^verbatim>\<open>kbapp_stdErrRespWithFwHwReset\<close>: the error response, the flush of the event
  queue, and the reset of the keyscan hardware (the keyboard platform build).
\<close>

definition kbapp_stdErrRespWithFwHwReset :: "KbAppConfig \<Rightarrow> KbAppState \<Rightarrow> KbAppState" where
  "kbapp_stdErrRespWithFwHwReset cfg s =
     (let s1 = kbapp_stdErrResp cfg s
      in s1\<lparr>eventQueue := [], effects := effects s1 @ [KeyscanReset]\<rparr>)"

definition kbapp_procErrKeyscan :: "KbAppConfig \<Rightarrow> KbAppState \<Rightarrow> KbAppState" where
  "kbapp_procErrKeyscan cfg s = kbapp_stdErrRespWithFwHwReset cfg s"

definition kbapp_procErrEvtQueue :: "KbAppConfig \<Rightarrow> KbAppState \<Rightarrow> KbAppState" where
  "kbapp_procErrEvtQueue cfg s = kbapp_stdErrRespWithFwHwReset cfg s"

definition kbapp_stdRptProcOverflow :: "KbAppConfig \<Rightarrow> KbAppState \<Rightarrow> KbAppState" where
  "kbapp_stdRptProcOverflow cfg s = kbapp_stdErrRespWithFwHwReset cfg s"

text \<open>
  The recovery bookkeeping at the head of the normal branch of
  \<^verbatim>\<open>kbapp_generateAndTxReports\<close>: while a recovery is in progress the count goes
  down by one per poll, and the poll that brings it to zero transmits the modified
  reports. This is the one statement of the function that touches the recovery count; the
  branch for pin entry, the loop over the queued events that follows the statement, and the
  idle rate step are not part of the definition.
\<close>

definition kbapp_generateAndTxReports_recovery :: "KbAppState \<Rightarrow> KbAppState" where
  "kbapp_generateAndTxReports_recovery s =
     (if recoveryInProgress s \<noteq> 0 then
        let s1 = s\<lparr>recoveryInProgress := recoveryInProgress s - 1\<rparr>
        in if recoveryInProgress s1 = 0 then kbapp_txModifiedKeyReports s1 else s1
      else s)"


section \<open>Key handlers\<close>

definition kbapp_funcLockToggle :: "KbAppState \<Rightarrow> KbAppState" where
  "kbapp_funcLockToggle s =
     (let st = (if funcLockInfo_state s = FUNC_LOCK_STATE_OFF
                then FUNC_LOCK_STATE_ON else FUNC_LOCK_STATE_OFF)
      in s\<lparr>funcLockInfo_state := st, kbapp_funcLock_state := st,
           funcLockRpt_status := st OR 2, funcLockRptChanged := True\<rparr>)"

text \<open>\<^verbatim>\<open>kbapp_funcLockProcEvtKey(upDownFlag, keyCode, translationCode)\<close>.\<close>

definition kbapp_funcLockProcEvtKey ::
  "uint8_t \<Rightarrow> uint8_t \<Rightarrow> uint8_t \<Rightarrow> KbAppState \<Rightarrow> KbAppState" where
  "kbapp_funcLockProcEvtKey upDownFlag keyCode translationCode s =
     (if recoveryInProgress s = 0 \<and> kbapp_protocol s = PROTOCOL_REPORT then
        if upDownFlag = KEY_DOWN then
          (if funcLockInfo_kepPosition s = FUNC_LOCK_KEY_UP then
             (kbapp_funcLockToggle (s\<lparr>funcLockInfo_kepPosition := FUNC_LOCK_KEY_DOWN\<rparr>))
               \<lparr>funcLockInfo_toggleStateOnKeyUp := False\<rparr>
           else s)
        else
          (if funcLockInfo_kepPosition s = FUNC_LOCK_KEY_DOWN then
             let s1 = s\<lparr>funcLockInfo_kepPosition := FUNC_LOCK_KEY_UP\<rparr>
             in if funcLockInfo_toggleStateOnKeyUp s1 then kbapp_funcLockToggle s1 else s1
           else s)
      else s)"

definition kbapp_slpRptProcEvtKey ::
  "uint8_t \<Rightarrow> uint8_t \<Rightarrow> uint8_t \<Rightarrow> KbAppState \<Rightarrow> KbAppState" where
  "kbapp_slpRptProcEvtKey upDownFlag keyCode slpBitMask s =
     (if upDownFlag = KEY_DOWN then
        (if slpRpt_sleepVal s AND slpBitMask = 0
         then s\<lparr>slpRpt_sleepVal := slpRpt_sleepVal s OR slpBitMask, slpRptChanged := True\<rparr>
         else s)
      else
        (if slpRpt_sleepVal s AND slpBitMask \<noteq> 0
         then s\<lparr>slpRpt_sleepVal := slpRpt_sleepVal s AND NOT slpBitMask, slpRptChanged := True\<rparr>
         else s))"

definition bitOffsetToByteValue :: "uint8_t list" where
  "bitOffsetToByteValue = [0x01, 0x02, 0x04, 0x08, 0x10, 0x20, 0x40, 0x80]"

text \<open>
  \<^verbatim>\<open>kbapp_bitRptProcEvtKey(upDownFlag, keyCode, rowCol)\<close>. The guard of the code
  compares \<open>rowCol\<close> with the configured number of bit mapped keys, not with the size
  of the array: a row past the array is an out-of-bounds access (\<open>None\<close>).
\<close>

definition kbapp_bitRptProcEvtKey ::
  "KbAppConfig \<Rightarrow> uint8_t \<Rightarrow> uint8_t \<Rightarrow> uint8_t \<Rightarrow> KbAppState \<Rightarrow> KbAppState option" where
  "kbapp_bitRptProcEvtKey cfg upDownFlag keyCode rowCol s =
     (if rowCol < numBitMappedKeys cfg then
        let row = unat (drop_bit 3 rowCol);
            col = unat (rowCol AND 0x07);
            keyMask = bitOffsetToByteValue ! col;
            keys = bitMappedReport_bitMappedKeys s
        in if row < length keys then
             if upDownFlag = KEY_DOWN then
               (if keys ! row AND keyMask = 0
                then Some (s\<lparr>bitMappedReport_bitMappedKeys := keys[row := keys ! row OR keyMask],
                             keysInBitRpt := keysInBitRpt s + 1, bitRptChanged := True\<rparr>)
                else Some s)
             else
               (if keys ! row AND keyMask \<noteq> 0
                then Some (s\<lparr>bitMappedReport_bitMappedKeys := keys[row := keys ! row AND NOT keyMask],
                             keysInBitRpt := keysInBitRpt s - 1, bitRptChanged := True\<rparr>)
                else Some s)
           else None
      else Some s)"

text \<open>
  The search loop of \<^verbatim>\<open>kbapp_stdRptProcEvtKeyDown\<close>, from index \<open>i\<close>: whether the
  code was found (the early return), and the index at which the loop stopped. Reading
  \<^verbatim>\<open>keyCodes[i]\<close> past the array is \<open>None\<close>.
\<close>

function kbapp_stdRptProcEvtKeyDown_loop :: "uint8_t \<Rightarrow> nat \<Rightarrow> KbAppState \<Rightarrow> (bool \<times> nat) option" where
  "kbapp_stdRptProcEvtKeyDown_loop translationCode i s =
     (if i < unat (keysInStdRpt s) then
        (if i < length (stdRpt_keyCodes s) then
           (if stdRpt_keyCodes s ! i = translationCode then Some (True, i)
            else kbapp_stdRptProcEvtKeyDown_loop translationCode (Suc i) s)
         else None)
      else Some (False, i))"
  by pat_completeness auto
termination
  by (relation "measure (\<lambda>(c, i, s). unat (keysInStdRpt s) - i)") auto

definition kbapp_stdRptProcEvtKeyDown ::
  "KbAppConfig \<Rightarrow> uint8_t \<Rightarrow> uint8_t \<Rightarrow> uint8_t \<Rightarrow> KbAppState \<Rightarrow> KbAppState option" where
  "kbapp_stdRptProcEvtKeyDown cfg upDownFlag keyCode translationCode s =
     do {
       (found, i) \<leftarrow> kbapp_stdRptProcEvtKeyDown_loop translationCode 0 s;
       if found then Some s
       else if i < unat (maxKeysInStdRpt cfg) then
         (if i < length (stdRpt_keyCodes s)
          then Some (s\<lparr>stdRpt_keyCodes := (stdRpt_keyCodes s)[i := translationCode],
                       keysInStdRpt := keysInStdRpt s + 1, stdRptChanged := True\<rparr>)
          else None)
       else Some (kbapp_stdRptProcOverflow cfg s)
     }"

text \<open>
  The loop of \<^verbatim>\<open>kbapp_stdRptProcEvtKeyUp\<close>, from index \<open>i\<close>. A match takes the
  count down, moves the last key into the slot, clears the last slot, and the loop goes
  on with the next index: the code has no \<^verbatim>\<open>break\<close>.
\<close>

function kbapp_stdRptProcEvtKeyUp_loop :: "uint8_t \<Rightarrow> nat \<Rightarrow> KbAppState \<Rightarrow> KbAppState option" where
  "kbapp_stdRptProcEvtKeyUp_loop translationCode i s =
     (if i < unat (keysInStdRpt s) then
        (if i < length (stdRpt_keyCodes s) then
           (if stdRpt_keyCodes s ! i = translationCode then
              (if unat (keysInStdRpt s - 1) < length (stdRpt_keyCodes s) then
                 kbapp_stdRptProcEvtKeyUp_loop translationCode (Suc i)
                   (s\<lparr>keysInStdRpt := keysInStdRpt s - 1,
                      stdRpt_keyCodes :=
                        ((stdRpt_keyCodes s)
                           [i := stdRpt_keyCodes s ! unat (keysInStdRpt s - 1)])
                           [unat (keysInStdRpt s - 1) := 0],
                      stdRptChanged := True\<rparr>)
               else None)
            else kbapp_stdRptProcEvtKeyUp_loop translationCode (Suc i) s)
         else None)
      else Some s)"
  by pat_completeness auto
termination
proof (relation "measure (\<lambda>(c, i, s). unat (keysInStdRpt s) - i)", goal_cases)
  case 1
  show ?case by simp
next
  case (2 c i s)
  then have "keysInStdRpt s \<noteq> 0" by auto
  then have "unat (keysInStdRpt s - 1) = unat (keysInStdRpt s) - 1" by (rule unat_minus_one)
  with 2 show ?case by simp
next
  case (3 c i s)
  then show ?case by simp
qed

definition kbapp_stdRptProcEvtKeyUp ::
  "uint8_t \<Rightarrow> uint8_t \<Rightarrow> uint8_t \<Rightarrow> KbAppState \<Rightarrow> KbAppState option" where
  "kbapp_stdRptProcEvtKeyUp upDownFlag keyCode translationCode s =
     kbapp_stdRptProcEvtKeyUp_loop translationCode 0 s"

definition kbapp_stdRptProcEvtKey ::
  "KbAppConfig \<Rightarrow> uint8_t \<Rightarrow> uint8_t \<Rightarrow> uint8_t \<Rightarrow> KbAppState \<Rightarrow> KbAppState option" where
  "kbapp_stdRptProcEvtKey cfg upDownFlag keyCode translationCode s =
     (if upDownFlag = KEY_DOWN
      then kbapp_stdRptProcEvtKeyDown cfg upDownFlag keyCode translationCode s
      else kbapp_stdRptProcEvtKeyUp upDownFlag keyCode translationCode s)"

definition kbapp_stdRptProcEvtModKey ::
  "uint8_t \<Rightarrow> uint8_t \<Rightarrow> uint8_t \<Rightarrow> KbAppState \<Rightarrow> KbAppState" where
  "kbapp_stdRptProcEvtModKey upDownFlag keyCode translationCode s =
     (if upDownFlag = KEY_DOWN then
        (if stdRpt_modifierKeys s AND translationCode = 0
         then s\<lparr>stdRpt_modifierKeys := stdRpt_modifierKeys s OR translationCode,
                stdRptChanged := True, modKeysInStdRpt := modKeysInStdRpt s + 1\<rparr>
         else s)
      else
        (if stdRpt_modifierKeys s AND translationCode \<noteq> 0
         then s\<lparr>stdRpt_modifierKeys := stdRpt_modifierKeys s AND NOT translationCode,
                stdRptChanged := True, modKeysInStdRpt := modKeysInStdRpt s - 1\<rparr>
         else s))"

text \<open>\<^verbatim>\<open>kbapp_funcLockProcEvtDepKey(upDownFlag, keyCode, funcLockDepKeyTableIndex)\<close>.\<close>

definition kbapp_funcLockProcEvtDepKey ::
  "KbAppConfig \<Rightarrow> uint8_t \<Rightarrow> uint8_t \<Rightarrow> uint8_t \<Rightarrow> KbAppState \<Rightarrow> KbAppState option" where
  "kbapp_funcLockProcEvtDepKey cfg upDownFlag keyCode funcLockDepKeyTableIndex s =
     do {
       (bitRptCode, stdRptCode) \<leftarrow>
         kbFuncLockDepKeyTransTab_at cfg (unat funcLockDepKeyTableIndex);
       if upDownFlag = KEY_DOWN then
         do {
           s1 \<leftarrow>
             (if funcLockInfo_state s = FUNC_LOCK_STATE_ON \<or> kbapp_protocol s = PROTOCOL_BOOT
              then kbapp_stdRptProcEvtKey cfg upDownFlag keyCode stdRptCode s
              else kbapp_bitRptProcEvtKey cfg upDownFlag keyCode bitRptCode s);
           Some (s1\<lparr>funcLockInfo_toggleStateOnKeyUp := True\<rparr>)
         }
       else
         do {
           s1 \<leftarrow> kbapp_stdRptProcEvtKey cfg upDownFlag keyCode stdRptCode s;
           kbapp_bitRptProcEvtKey cfg upDownFlag keyCode bitRptCode s1
         }
     }"

section \<open>Protocol switch\<close>

text \<open>
  \<^verbatim>\<open>kbapp_setProtocol(newProtocol)\<close>; the function always returns
  \<^verbatim>\<open>HID_PAR_HANDSHAKE_RSP_SUCCESS\<close>, the model returns the state.
\<close>

definition kbapp_setProtocol :: "KbAppConfig \<Rightarrow> uint8_t \<Rightarrow> KbAppState \<Rightarrow> KbAppState" where
  "kbapp_setProtocol cfg newProtocol s =
     (let s1 =
        (if kbapp_protocol s \<noteq> newProtocol \<and> newProtocol = HID_PAR_PROTOCOL_REPORT
         then (kbapp_scrollRptClear cfg (kbapp_slpRptClear cfg (kbapp_bitRptClear cfg s)))
                \<lparr>funcLockInfo_kepPosition := FUNC_LOCK_KEY_UP\<rparr>
         else s)
      in s1\<lparr>kbapp_protocol := newProtocol\<rparr>)"

text \<open>
  \<^verbatim>\<open>blekb_setProtocol(reportType, reportId, payload, payloadSize)\<close>, the handler that
  both GATT maps register for a write to the Protocol Mode characteristic on LE. It stores
  the first byte of the payload in \<^verbatim>\<open>kbapp_protocol\<close> and registers the GATT map of
  that protocol. The payload is the list of its bytes, \<open>payloadSize\<close> its length; the
  read of the first byte of an empty payload is \<open>None\<close>.
\<close>

definition blekb_setProtocol ::
  "uint8_t \<Rightarrow> uint8_t \<Rightarrow> uint8_t list \<Rightarrow> KbAppState \<Rightarrow> KbAppState option" where
  "blekb_setProtocol reportType reportId payload s =
     (case payload of
        [] \<Rightarrow> None
      | b # _ \<Rightarrow>
          let s1 = s\<lparr>kbapp_protocol := b\<rparr>
          in if kbapp_protocol s1 = PROTOCOL_REPORT
             then Some (s1\<lparr>effects := effects s1 @ [RegisterReportModeGattMap]\<rparr>)
             else Some (s1\<lparr>effects := effects s1 @ [RegisterBootModeGattMap]\<rparr>))"


section \<open>The key event dispatcher\<close>

text \<open>
  The \<^verbatim>\<open>switch\<close> of \<^verbatim>\<open>kbapp_procEvtKey\<close> on the key type of a scan code that has
  passed the bounds check. The user-defined handler does nothing.
\<close>

definition kbapp_procEvtUserDefinedKey ::
  "uint8_t \<Rightarrow> uint8_t \<Rightarrow> uint8_t \<Rightarrow> KbAppState \<Rightarrow> KbAppState" where
  "kbapp_procEvtUserDefinedKey upDownFlag keyCode translationCode s = s"

definition kbapp_procEvtKey_switch ::
  "KbAppConfig \<Rightarrow> KeyType \<Rightarrow> uint8_t \<Rightarrow> uint8_t \<Rightarrow> uint8_t \<Rightarrow> KbAppState \<Rightarrow> KbAppState option" where
  "kbapp_procEvtKey_switch cfg keyType upDownFlag keyCode keyTranslationCode s =
     (case keyType of
        KEY_TYPE_STD \<Rightarrow> kbapp_stdRptProcEvtKey cfg upDownFlag keyCode keyTranslationCode s
      | KEY_TYPE_MODIFIER \<Rightarrow> Some (kbapp_stdRptProcEvtModKey upDownFlag keyCode keyTranslationCode s)
      | KEY_TYPE_BIT_MAPPED \<Rightarrow> kbapp_bitRptProcEvtKey cfg upDownFlag keyCode keyTranslationCode s
      | KEY_TYPE_SLEEP \<Rightarrow> Some (kbapp_slpRptProcEvtKey upDownFlag keyCode keyTranslationCode s)
      | KEY_TYPE_FUNC_LOCK \<Rightarrow> Some (kbapp_funcLockProcEvtKey upDownFlag keyCode keyTranslationCode s)
      | KEY_TYPE_FUNC_LOCK_DEP \<Rightarrow>
          kbapp_funcLockProcEvtDepKey cfg upDownFlag keyCode keyTranslationCode s
      | KEY_TYPE_NONE \<Rightarrow> Some s
      | KEY_TYPE_USER_DEF t \<Rightarrow>
          Some (kbapp_procEvtUserDefinedKey upDownFlag keyCode keyTranslationCode s))"

text \<open>
  A handler leaves the event queue as it is or, on the overflow path, flushes it. The
  dispatcher's loop terminates on this.
\<close>

declare kbapp_stdRptProcEvtKeyDown_loop.simps [simp del]
declare kbapp_stdRptProcEvtKeyUp_loop.simps [simp del]

lemma kbapp_stdRptProcEvtKeyUp_loop_queue:
  "kbapp_stdRptProcEvtKeyUp_loop c i s = Some s' \<Longrightarrow> eventQueue s' = eventQueue s"
proof (induction c i s rule: kbapp_stdRptProcEvtKeyUp_loop.induct)
  case (1 c i s)
  from "1.prems" show ?case
    by (subst (asm) kbapp_stdRptProcEvtKeyUp_loop.simps)
       (auto split: if_splits dest: "1.IH")
qed

lemma kbapp_stdRptProcEvtKey_queue:
  "kbapp_stdRptProcEvtKey cfg ud kc c s = Some s' \<Longrightarrow>
     eventQueue s' = eventQueue s \<or> eventQueue s' = []"
  by (auto simp: kbapp_stdRptProcEvtKey_def kbapp_stdRptProcEvtKeyDown_def
        kbapp_stdRptProcEvtKeyUp_def kbapp_stdRptProcOverflow_def
        kbapp_stdErrRespWithFwHwReset_def Let_def
      split: if_splits Option.bind_splits prod.splits
      dest: kbapp_stdRptProcEvtKeyUp_loop_queue)

lemma kbapp_bitRptProcEvtKey_queue:
  "kbapp_bitRptProcEvtKey cfg ud kc rc s = Some s' \<Longrightarrow> eventQueue s' = eventQueue s"
  by (auto simp: kbapp_bitRptProcEvtKey_def Let_def split: if_splits)

lemma kbapp_funcLockProcEvtDepKey_queue:
  assumes "kbapp_funcLockProcEvtDepKey cfg ud kc idx s = Some s'"
  shows "eventQueue s' = eventQueue s \<or> eventQueue s' = []"
  using assms
  by (auto simp: kbapp_funcLockProcEvtDepKey_def
      split: Option.bind_splits if_splits prod.splits
      dest!: kbapp_stdRptProcEvtKey_queue kbapp_bitRptProcEvtKey_queue)

lemma kbapp_procEvtKey_switch_queue:
  assumes "kbapp_procEvtKey_switch cfg ty ud kc tc s = Some s'"
  shows "length (eventQueue s') \<le> length (eventQueue s)"
proof (cases ty)
  case KEY_TYPE_STD
  with assms kbapp_stdRptProcEvtKey_queue [of cfg ud kc tc s s'] show ?thesis
    by (auto simp: kbapp_procEvtKey_switch_def)
next
  case KEY_TYPE_BIT_MAPPED
  with assms kbapp_bitRptProcEvtKey_queue [of cfg ud kc tc s s'] show ?thesis
    by (auto simp: kbapp_procEvtKey_switch_def)
next
  case KEY_TYPE_FUNC_LOCK_DEP
  with assms kbapp_funcLockProcEvtDepKey_queue [of cfg ud kc tc s s'] show ?thesis
    by (auto simp: kbapp_procEvtKey_switch_def)
next
  case KEY_TYPE_MODIFIER
  with assms show ?thesis
    by (auto simp: kbapp_procEvtKey_switch_def kbapp_stdRptProcEvtModKey_def)
next
  case KEY_TYPE_SLEEP
  with assms show ?thesis
    by (auto simp: kbapp_procEvtKey_switch_def kbapp_slpRptProcEvtKey_def)
next
  case KEY_TYPE_FUNC_LOCK
  with assms show ?thesis
    by (auto simp: kbapp_procEvtKey_switch_def kbapp_funcLockProcEvtKey_def
          kbapp_funcLockToggle_def Let_def split: if_splits)
next
  case KEY_TYPE_NONE
  with assms show ?thesis by (auto simp: kbapp_procEvtKey_switch_def)
next
  case (KEY_TYPE_USER_DEF t)
  with assms show ?thesis
    by (auto simp: kbapp_procEvtKey_switch_def kbapp_procEvtUserDefinedKey_def)
qed

lemma kbapp_txModifiedKeyReports_queue:
  "eventQueue (kbapp_txModifiedKeyReports s) = eventQueue s"
  by (simp add: kbapp_txModifiedKeyReports_def Let_def kbapp_stdRptSend_def kbapp_bitRptSend_def
        kbapp_slpRptSend_def kbapp_funcLockRptSend_def kbapp_scrollRptSend_def)

text \<open>
  \<^verbatim>\<open>kbapp_procEvtKey\<close>: the \<^verbatim>\<open>do ... while (keyCode < KB_MAX_KEYS)\<close> loop over the
  event queue. The current element is the head of the queue; removing the current element
  of an empty queue leaves it empty.
\<close>

function kbapp_procEvtKey :: "KbAppConfig \<Rightarrow> KbAppState \<Rightarrow> KbAppState option" where
  "kbapp_procEvtKey cfg s =
     (case eventQueue s of
        [] \<Rightarrow> Some (kbapp_procErrEvtQueue cfg s)
      | HID_EVENT_KEY_STATE_CHANGE keyCode upDownFlag # rest \<Rightarrow>
          if keyCode < kbKeyConfig_size cfg then
            (case kbKeyConfig_at cfg keyCode of
               None \<Rightarrow> None
             | Some (keyType, keyTranslationCode) \<Rightarrow>
                 (case kbapp_procEvtKey_switch cfg keyType upDownFlag keyCode keyTranslationCode s of
                    None \<Rightarrow> None
                  | Some s1 \<Rightarrow>
                      if keyCode < KB_MAX_KEYS cfg
                      then kbapp_procEvtKey cfg (s1\<lparr>eventQueue := tl (eventQueue s1)\<rparr>)
                      else Some (s1\<lparr>eventQueue := tl (eventQueue s1)\<rparr>)))
          else if keyCode = END_OF_SCAN_CYCLE cfg then
            (if keyCode < KB_MAX_KEYS cfg
             then kbapp_procEvtKey cfg
                    ((kbapp_txModifiedKeyReports s)
                       \<lparr>eventQueue := tl (eventQueue (kbapp_txModifiedKeyReports s)),
                        effects := effects (kbapp_txModifiedKeyReports s) @ [ActivityDetected]\<rparr>)
             else Some ((kbapp_txModifiedKeyReports s)
                       \<lparr>eventQueue := tl (eventQueue (kbapp_txModifiedKeyReports s)),
                        effects := effects (kbapp_txModifiedKeyReports s) @ [ActivityDetected]\<rparr>))
          else Some (kbapp_procErrKeyscan cfg s)
      | _ # rest \<Rightarrow> Some (kbapp_procErrEvtQueue cfg s))"
  by pat_completeness auto
termination
proof (relation "measure (\<lambda>(cfg, s). length (eventQueue s))", goal_cases)
  case 1
  show ?case by simp
next
  case (2 cfg s ev rest keyCode upDownFlag kt keyType keyTranslationCode s1)
  then show ?case by (auto dest!: kbapp_procEvtKey_switch_queue)
next
  case (3 cfg s ev rest keyCode upDownFlag)
  then show ?case by (simp add: kbapp_txModifiedKeyReports_queue)
qed

declare kbapp_procEvtKey.simps [simp del]


section \<open>Pin and pass code entry\<close>

definition kbapp_pinRptUpdate :: "uint8_t \<Rightarrow> KbAppState \<Rightarrow> KbAppState" where
  "kbapp_pinRptUpdate pinEntryCode s =
     s\<lparr>pinReport_reportCode := pinEntryCode, pinRptChanged := True\<rparr>"

text \<open>
  \<^verbatim>\<open>kbapp_pinEntryEvent(keyEntry)\<close>. Every \<open>KeyEntryEvent\<close> is below
  \<^verbatim>\<open>KEY_ENTRY_EVENT_MAX\<close>; the row of the table is the low bit of the mode.
\<close>

definition kbapp_pinEntryEvent :: "KbAppConfig \<Rightarrow> KeyEntryEvent \<Rightarrow> KbAppState \<Rightarrow> KbAppState" where
  "kbapp_pinEntryEvent cfg keyEntry s =
     (if pinCodeEntryInProgress s \<noteq> PIN_ENTRY_MODE_NONE then
        let newCode =
              pinEventCode cfg
                (pinCodeEventTransTab
                   (unat (pinEntryModeValue cfg (pinCodeEntryInProgress s) AND 0x01)) keyEntry)
        in (case pinCodeEntryInProgress s of
              LEGACY_PIN_ENTRY_IN_PROGRESS \<Rightarrow>
                if newCode \<noteq> pinEventCode cfg PIN_ENTRY_EVENT_INVALID
                then kbapp_pinRptUpdate newCode s else s
            | PASS_KEY_ENTRY_IN_PROGRESS \<Rightarrow>
                s\<lparr>effects := effects s @ [PassCodeKeyPressReport newCode]\<rparr>
            | PIN_ENTRY_MODE_NONE \<Rightarrow> s)
      else s)"

text \<open>
  The body of the loop of \<^verbatim>\<open>kbapp_handlePinEntry\<close> for a key event: the state after
  the body, and whether the body left the function through its \<^verbatim>\<open>return\<close>. Both
  reads of \<^verbatim>\<open>kbKeyConfig[keyCode]\<close> are made without a bounds check; the second is
  reached only when an enter key is latched.
\<close>

definition kbapp_handlePinEntry_key ::
  "KbAppConfig \<Rightarrow> uint8_t \<Rightarrow> uint8_t \<Rightarrow> KbAppState \<Rightarrow> (bool \<times> KbAppState) option" where
  "kbapp_handlePinEntry_key cfg keyCode upDownFlag s =
     (if upDownFlag = KEY_DOWN \<and> enterKeyPressed s = 0 then
        do {
          (keyType, usbUsageCode) \<leftarrow> kbKeyConfig_at cfg keyCode;
          if keyType = KEY_TYPE_STD then
            if usbUsageCode = USB_USAGE_BACKSPACE \<or> usbUsageCode = USB_USAGE_DELETE then
              (if pinCodeSize s \<noteq> 0
               then Some (False, kbapp_pinEntryEvent cfg KEY_ENTRY_EVENT_BACKSPACE
                                   (s\<lparr>pinCodeSize := pinCodeSize s - 1\<rparr>))
               else Some (False, s))
            else if usbUsageCode = USB_USAGE_ESCAPE then
              Some (False, kbapp_pinEntryEvent cfg KEY_ENTRY_EVENT_RESTART (s\<lparr>pinCodeSize := 0\<rparr>))
            else if usbUsageCode = USB_USAGE_ENTER \<or> usbUsageCode = USB_USAGE_KP_ENTER then
              Some (False, s\<lparr>enterKeyPressed := usbUsageCode\<rparr>)
            else
              let numericKeyAsciiCode =
                    (if usbUsageCode = USB_USAGE_0 \<or> usbUsageCode = USB_USAGE_KP_0 then 0
                     else if USB_USAGE_1 \<le> usbUsageCode \<and> usbUsageCode \<le> USB_USAGE_9
                       then usbUsageCode - USB_USAGE_1 + 1
                     else if USB_USAGE_KP_1 \<le> usbUsageCode \<and> usbUsageCode \<le> USB_USAGE_KP_9
                       then usbUsageCode - USB_USAGE_KP_1 + 1
                     else 0xff) :: uint8_t
              in if numericKeyAsciiCode \<noteq> 0xff then
                   (if pinCodeSize s < maxPinCodeSize s then
                      (if unat (pinCodeSize s) < length (pinCodeBuffer s) then
                         Some (False, kbapp_pinEntryEvent cfg KEY_ENTRY_EVENT_CHAR
                                 (s\<lparr>pinCodeBuffer :=
                                       (pinCodeBuffer s)
                                         [unat (pinCodeSize s) := numericKeyAsciiCode + 0x30],
                                     pinCodeSize := pinCodeSize s + 1\<rparr>))
                       else None)
                    else Some (False, s))
                 else Some (False, s)
          else Some (False, s)
        }
      else if enterKeyPressed s \<noteq> 0 then
        do {
          (keyType, translationValue) \<leftarrow> kbKeyConfig_at cfg keyCode;
          if translationValue = enterKeyPressed s then
            do {
              s1 \<leftarrow>
                (if pinCodeEntryInProgress s = LEGACY_PIN_ENTRY_IN_PROGRESS then
                   Some (s\<lparr>effects := effects s
                              @ [PinCode (take (unat (pinCodeSize s)) (pinCodeBuffer s))]\<rparr>)
                 else
                   let s0 = kbapp_pinEntryEvent cfg KEY_ENTRY_EVENT_STOP s
                   in if unat (pinCodeSize s0) < length (pinCodeBuffer s0) then
                        Some (s0\<lparr>pinCodeBuffer := (pinCodeBuffer s0)[unat (pinCodeSize s0) := 0],
                                 effects := effects s0
                                   @ [PassCode (take (unat (pinCodeSize s0)) (pinCodeBuffer s0))]\<rparr>)
                      else None);
              Some (True, kbapp_flushUserInput cfg
                            (s1\<lparr>pinCodeEntryInProgress := PIN_ENTRY_MODE_NONE\<rparr>))
            }
          else Some (False, s)
        }
      else Some (False, s))"

lemma kbapp_pinEntryEvent_queue:
  "eventQueue (kbapp_pinEntryEvent cfg e s) = eventQueue s"
  by (simp add: kbapp_pinEntryEvent_def kbapp_pinRptUpdate_def Let_def split: PinEntryMode.splits)

lemma kbapp_handlePinEntry_key_queue:
  "kbapp_handlePinEntry_key cfg kc ud s = Some (False, s') \<Longrightarrow> eventQueue s' = eventQueue s"
  by (auto simp: kbapp_handlePinEntry_key_def kbapp_pinEntryEvent_queue Let_def
      split: if_splits Option.bind_splits prod.splits)

text \<open>
  \<^verbatim>\<open>kbapp_handlePinEntry\<close>: the loop runs while the queue has a current element; an
  event that is not a key event is only removed.
\<close>

function kbapp_handlePinEntry :: "KbAppConfig \<Rightarrow> KbAppState \<Rightarrow> KbAppState option" where
  "kbapp_handlePinEntry cfg s =
     (case eventQueue s of
        [] \<Rightarrow> Some s
      | HID_EVENT_KEY_STATE_CHANGE keyCode upDownFlag # rest \<Rightarrow>
          (case kbapp_handlePinEntry_key cfg keyCode upDownFlag s of
             None \<Rightarrow> None
           | Some (True, s1) \<Rightarrow> Some s1
           | Some (False, s1) \<Rightarrow>
               kbapp_handlePinEntry cfg (s1\<lparr>eventQueue := tl (eventQueue s1)\<rparr>))
      | _ # rest \<Rightarrow> kbapp_handlePinEntry cfg (s\<lparr>eventQueue := tl (eventQueue s)\<rparr>))"
  by pat_completeness auto
termination
proof (relation "measure (\<lambda>(cfg, s). length (eventQueue s))", goal_cases)
  case 1
  show ?case by simp
next
  case 2
  then show ?case by (auto dest!: kbapp_handlePinEntry_key_queue)
next
  case 3
  then show ?case by simp
next
  case 4
  then show ?case by simp
next
  case 5
  then show ?case by simp
qed

declare kbapp_handlePinEntry.simps [simp del]

text \<open>
  \<^verbatim>\<open>kbapp_enterPinCodeEntryMode\<close> and \<^verbatim>\<open>kbapp_enterPassCodeEntryMode\<close>; the
  arguments are \<^verbatim>\<open>MAX_PIN_SIZE\<close> and \<^verbatim>\<open>MAX_PASS_SIZE\<close>. The pin variant clears
  the first \<^verbatim>\<open>MAX_PIN_SIZE\<close> bytes of the buffer, which must fit into it; the pass
  code variant clears the whole buffer.
\<close>

definition kbapp_enterPinCodeEntryMode ::
  "KbAppConfig \<Rightarrow> uint8_t \<Rightarrow> KbAppState \<Rightarrow> KbAppState option" where
  "kbapp_enterPinCodeEntryMode cfg MAX_PIN_SIZE s =
     (if pinCodeEntryInProgress s = PIN_ENTRY_MODE_NONE then
        let s1 = kbapp_flushUserInput cfg (s\<lparr>enterKeyPressed := 0\<rparr>)
        in if unat MAX_PIN_SIZE \<le> length (pinCodeBuffer s1) then
             Some (s1\<lparr>pinCodeSize := 0, maxPinCodeSize := MAX_PIN_SIZE,
                      pinCodeBuffer :=
                        replicate (unat MAX_PIN_SIZE) 0 @ drop (unat MAX_PIN_SIZE) (pinCodeBuffer s1),
                      pinCodeEntryInProgress := LEGACY_PIN_ENTRY_IN_PROGRESS\<rparr>)
           else None
      else Some (s\<lparr>effects := effects s @ [Disconnect]\<rparr>))"

definition kbapp_enterPassCodeEntryMode :: "KbAppConfig \<Rightarrow> uint8_t \<Rightarrow> KbAppState \<Rightarrow> KbAppState" where
  "kbapp_enterPassCodeEntryMode cfg MAX_PASS_SIZE s =
     (if pinCodeEntryInProgress s = PIN_ENTRY_MODE_NONE then
        let s1 = kbapp_flushUserInput cfg (s\<lparr>enterKeyPressed := 0\<rparr>);
            s2 = s1\<lparr>pinCodeSize := 0, maxPinCodeSize := MAX_PASS_SIZE,
                   pinCodeBuffer := replicate (length (pinCodeBuffer s1)) 0,
                   pinCodeEntryInProgress := PASS_KEY_ENTRY_IN_PROGRESS\<rparr>
        in kbapp_pinEntryEvent cfg KEY_ENTRY_EVENT_START s2
      else s\<lparr>effects := effects s @ [Disconnect]\<rparr>)"

section \<open>Polling the keyscan driver\<close>

text \<open>
  \<^verbatim>\<open>kbapp_pollActivityKey\<close> on the events that the keyscan driver hands out in this
  poll, each a pair of scan code and up/down flag. \<open>add_event\<close> is the queueing function
  of the HID library; the flag is \<^verbatim>\<open>suppressEndScanCycleAfterConnectButton\<close>.
\<close>

fun kbapp_pollActivityKey_loop ::
  "KbAppConfig \<Rightarrow> (HidEvent \<Rightarrow> HidEvent list \<Rightarrow> HidEvent list) \<Rightarrow> (uint8_t \<times> uint8_t) list
     \<Rightarrow> bool \<Rightarrow> KbAppState \<Rightarrow> KbAppState" where
  "kbapp_pollActivityKey_loop cfg add_event [] suppress s = s"
| "kbapp_pollActivityKey_loop cfg add_event ((keyCode, upDownFlag) # evs) suppress s =
     (if keyCode = connectButtonScanIndex cfg then
        kbapp_pollActivityKey_loop cfg add_event evs suppress
          (if recoveryInProgress s = 0
           then kbapp_connectButtonHandler
                  (if upDownFlag = KEY_DOWN then CONNECT_BUTTON_DOWN else CONNECT_BUTTON_UP) s
           else s)
      else if keyCode = END_OF_SCAN_CYCLE cfg then
        kbapp_pollActivityKey_loop cfg add_event evs True
          (if \<not> suppress
           then s\<lparr>eventQueue :=
                    add_event (HID_EVENT_KEY_STATE_CHANGE keyCode upDownFlag) (eventQueue s)\<rparr>
           else s)
      else
        kbapp_pollActivityKey_loop cfg add_event evs False
          (s\<lparr>eventQueue :=
               add_event (HID_EVENT_KEY_STATE_CHANGE keyCode upDownFlag) (eventQueue s)\<rparr>))"

definition kbapp_pollActivityKey ::
  "KbAppConfig \<Rightarrow> (HidEvent \<Rightarrow> HidEvent list \<Rightarrow> HidEvent list) \<Rightarrow> (uint8_t \<times> uint8_t) list
     \<Rightarrow> KbAppState \<Rightarrow> KbAppState" where
  "kbapp_pollActivityKey cfg add_event evs s = kbapp_pollActivityKey_loop cfg add_event evs True s"


section \<open>Notions used in the statements\<close>

text \<open>Polling the scroll interface once per count of a list, with the motion that each
  poll puts into the scroll event.\<close>

fun kbapp_pollActivityScroll_run ::
  "KbAppConfig \<Rightarrow> (HidEvent \<Rightarrow> HidEvent list \<Rightarrow> HidEvent list) \<Rightarrow> int16_t list
     \<Rightarrow> KbAppState \<Rightarrow> (int16_t list \<times> KbAppState) option" where
  "kbapp_pollActivityScroll_run cfg add_event [] s = Some ([], s)"
| "kbapp_pollActivityScroll_run cfg add_event (d # ds) s =
     do {
       s1 \<leftarrow> kbapp_pollActivityScroll cfg add_event d s;
       (ms, s2) \<leftarrow> kbapp_pollActivityScroll_run cfg add_event ds s1;
       Some (scrollEvent_motion s1 # ms, s2)
     }"

text \<open>The keys of the standard report: the first \<open>keysInStdRpt\<close> slots of the array.\<close>

definition stdRpt_keys :: "KbAppState \<Rightarrow> uint8_t list" where
  "stdRpt_keys s = take (unat (keysInStdRpt s)) (stdRpt_keyCodes s)"

text \<open>Pressing standard keys one after the other, each given by its scan code and its
  translation code.\<close>

fun kbapp_stdRptProcEvtKey_presses ::
  "KbAppConfig \<Rightarrow> (uint8_t \<times> uint8_t) list \<Rightarrow> KbAppState \<Rightarrow> KbAppState option" where
  "kbapp_stdRptProcEvtKey_presses cfg [] s = Some s"
| "kbapp_stdRptProcEvtKey_presses cfg ((keyCode, translationCode) # ks) s =
     do {
       s1 \<leftarrow> kbapp_stdRptProcEvtKey cfg KEY_DOWN keyCode translationCode s;
       kbapp_stdRptProcEvtKey_presses cfg ks s1
     }"

text \<open>The other func-lock state, as \<^verbatim>\<open>kbapp_funcLockToggle\<close> computes it.\<close>

definition funcLock_toggled :: "uint8_t \<Rightarrow> uint8_t" where
  "funcLock_toggled st = (if st = FUNC_LOCK_STATE_OFF then FUNC_LOCK_STATE_ON else FUNC_LOCK_STATE_OFF)"

text \<open>What \<^verbatim>\<open>kbapp_funcLockProcEvtKey\<close> reads of the state.\<close>

definition funcLock_context ::
  "KbAppState \<Rightarrow> uint8_t \<times> FuncLockKeyPosition \<times> bool \<times> uint8_t \<times> uint8_t" where
  "funcLock_context s =
     (funcLockInfo_state s, funcLockInfo_kepPosition s, funcLockInfo_toggleStateOnKeyUp s,
      recoveryInProgress s, kbapp_protocol s)"

text \<open>The number of bits set in the bit mapped report.\<close>

definition bitsSet :: "uint8_t \<Rightarrow> nat" where
  "bitsSet w = length (filter (bit w) [0..<8])"

definition bitRpt_keysDown :: "uint8_t list \<Rightarrow> nat" where
  "bitRpt_keysDown keys = sum_list (map bitsSet keys)"

text \<open>
  The states of the bit mapped report that the code can reach from power-on: through
  \<^verbatim>\<open>kbapp_bitRptClear\<close>, through \<^verbatim>\<open>kbapp_bitRptProcEvtKey\<close>, and through any other
  step, which leaves the array and the counter alone.
\<close>

inductive bitRpt_reachable :: "KbAppConfig \<Rightarrow> KbAppState \<Rightarrow> bool" for cfg :: KbAppConfig where
  power_on: "bitRpt_reachable cfg (dual_mode_keyboard_application_state n1 n2 n3)"
| cleared: "bitRpt_reachable cfg s \<Longrightarrow> bitRpt_reachable cfg (kbapp_bitRptClear cfg s)"
| key: "bitRpt_reachable cfg s \<Longrightarrow> kbapp_bitRptProcEvtKey cfg upDownFlag keyCode rowCol s = Some s'
          \<Longrightarrow> bitRpt_reachable cfg s'"
| other: "bitRpt_reachable cfg s
          \<Longrightarrow> bitMappedReport_bitMappedKeys s' = bitMappedReport_bitMappedKeys s
          \<Longrightarrow> keysInBitRpt s' = keysInBitRpt s
          \<Longrightarrow> bitRpt_reachable cfg s'"


text \<open>
  The values of the enter latch: \<^verbatim>\<open>enterKeyPressed\<close> is cleared when a pin or pass
  code entry starts, and \<^verbatim>\<open>kbapp_handlePinEntry\<close> stores nothing in it but the usage
  of the enter key that went down.
\<close>

definition pin_latch_valid :: "KbAppState \<Rightarrow> bool" where
  "pin_latch_valid s \<longleftrightarrow>
     enterKeyPressed s = 0 \<or> enterKeyPressed s = USB_USAGE_ENTER
     \<or> enterKeyPressed s = USB_USAGE_KP_ENTER"

text \<open>
  A small configuration and a state on which the theorems are instantiated: six keys in
  the standard report, eighteen bit mapped keys in three bytes, a recovery of three polls,
  and a key table of nine scan codes.
\<close>

definition kbAppConfig_sample :: KbAppConfig where
  "kbAppConfig_sample =
     \<lparr>stdRptID = 1, maxKeysInStdRpt = 6, bitReportID = 2, numBitMappedKeys = 18,
      sleepReportID = 3, pinReportID = 4, scrollReportID = 6, connectButtonScanIndex = 0xFE,
      recoveryPollCount = 3, negateScroll = 0, scrollScale = 2, pollsToKeepFracScrollData = 0,
      kbKeyConfig =
        [(KEY_TYPE_STD, 0x04), (KEY_TYPE_STD, 0x1E), (KEY_TYPE_STD, 0x28), (KEY_TYPE_STD, 0x2A),
         (KEY_TYPE_MODIFIER, 0x02), (KEY_TYPE_BIT_MAPPED, 0x03), (KEY_TYPE_FUNC_LOCK, 0x00),
         (KEY_TYPE_FUNC_LOCK_DEP, 0x00), (KEY_TYPE_SLEEP, 0x01)],
      kbKeyConfig_size = 9, KB_MAX_KEYS = 160, END_OF_SCAN_CYCLE = 0xFF,
      KB_MAX_FUNC_LOCK_DEP_KEYS = 13,
      pinEventCode = (\<lambda>c. case c of
          PIN_ENTRY_EVENT_INVALID \<Rightarrow> 0 | PIN_ENTRY_EVENT_CHAR \<Rightarrow> 1
        | PIN_ENTRY_EVENT_BACKSPACE \<Rightarrow> 2 | PIN_ENTRY_EVENT_RESTART \<Rightarrow> 3
        | PASS_KEY_ENTRY_EVENT_START \<Rightarrow> 0 | PASS_KEY_ENTRY_EVENT_CHAR \<Rightarrow> 1
        | PASS_KEY_ENTRY_EVENT_BACKSPACE \<Rightarrow> 2 | PASS_KEY_ENTRY_EVENT_RESTART \<Rightarrow> 3
        | PASS_KEY_ENTRY_EVENT_STOP \<Rightarrow> 4),
      pinEntryModeValue = (\<lambda>m. case m of
          PIN_ENTRY_MODE_NONE \<Rightarrow> 0 | LEGACY_PIN_ENTRY_IN_PROGRESS \<Rightarrow> 2
        | PASS_KEY_ENTRY_IN_PROGRESS \<Rightarrow> 1)\<rparr>"

definition kbAppState_sample :: KbAppState where
  "kbAppState_sample = dual_mode_keyboard_application_state 6 3 16"

section \<open>Scroll scaling: the quotient and the remainder\<close>

lemma sint16_of_int: "- 32768 \<le> x \<Longrightarrow> x < 32768 \<Longrightarrow> sint (word_of_int x :: 16 word) = x"
  by (simp add: sint_sbintrunc' signed_take_bit_int_eq_self)

lemma sint_bounds16: "- 32768 \<le> sint (v :: 16 word) \<and> sint v < 32768"
  using sint_ge [of v] sint_lt [of v] by simp

lemma word16_of_int_0_iff:
  "- 32768 \<le> x \<Longrightarrow> x < 32768 \<Longrightarrow> (word_of_int x :: 16 word) = 0 \<longleftrightarrow> x = 0"
  by (metis sint16_of_int sint_0 word_of_int_0)

lemma sint16_uminus: "sint (v::16 word) \<noteq> - 32768 \<Longrightarrow> sint (- v) = - sint v"
proof -
  assume a: "sint v \<noteq> - 32768"
  have "- v = word_of_int (- sint v)" by simp
  moreover have "- 32768 \<le> - sint v" "- sint v < 32768"
    using a sint_bounds16 [of v] by auto
  ultimately show ?thesis by (simp only: sint16_of_int)
qed

lemma div_pow2_le: "0 \<le> (a::int) \<Longrightarrow> a div 2 ^ n \<le> a"
  by (cases "a = 0") (simp_all add: int_div_le_self)


lemma kbapp_scaleValue_nonneg:
  assumes "0 \<le> sint v" "unat s < 32"
  shows "kbapp_scaleValue v s =
     Some (word_of_int (sint v div 2 ^ unat s), word_of_int (sint v mod 2 ^ unat s))"
proof -
  let ?a = "sint v" and ?n = "unat s"
  have b: "?a < 32768" using sint_bounds16 [of v] by simp
  have q1: "0 \<le> ?a div 2 ^ ?n" using assms(1) by (simp add: pos_imp_zdiv_nonneg_iff)
  have q2: "?a div 2 ^ ?n \<le> ?a" using assms(1) by (rule div_pow2_le)
  have sq: "sint (word_of_int (?a div 2 ^ ?n) :: 16 word) = ?a div 2 ^ ?n"
    using q1 q2 b by (intro sint16_of_int) auto
  have m0: "?a - push_bit ?n (?a div 2 ^ ?n) = ?a mod 2 ^ ?n"
    by (simp add: push_bit_eq_mult minus_div_mult_eq_mod)
  have m: "(word_of_int (?a - push_bit ?n (?a div 2 ^ ?n)) :: 16 word) = word_of_int (?a mod 2 ^ ?n)"
    by (simp only: m0)
  show ?thesis
  proof (cases "?a div 2 ^ ?n = 0")
    case True
    then have "?a mod 2 ^ ?n = ?a" using m0 by simp
    with True show ?thesis using assms
      by (simp add: kbapp_scaleValue_def Let_def drop_bit_eq_div)
  next
    case False
    then have "(word_of_int (?a div 2 ^ ?n) :: 16 word) \<noteq> 0"
      using q1 q2 b by (simp add: word16_of_int_0_iff)
    then show ?thesis using assms sq m
      by (simp add: kbapp_scaleValue_def Let_def drop_bit_eq_div)
  qed
qed

lemma kbapp_scaleValue_neg:
  assumes "sint v < 0" "sint v \<noteq> - 32768" "unat s < 32"
  shows "kbapp_scaleValue v s =
     Some (word_of_int (- ((- sint v) div 2 ^ unat s)), word_of_int (- ((- sint v) mod 2 ^ unat s)))"
proof -
  let ?a = "- sint v" and ?n = "unat s"
  have b: "0 < ?a" "?a < 32768" using assms sint_bounds16 [of v] by auto
  have s0: "sint (word_of_int ?a :: 16 word) = ?a" using b by (intro sint16_of_int) auto
  have q1: "0 \<le> ?a div 2 ^ ?n" using b by (simp add: pos_imp_zdiv_nonneg_iff)
  have q2: "?a div 2 ^ ?n \<le> ?a" using b by (intro div_pow2_le) simp
  have sq: "sint (word_of_int (?a div 2 ^ ?n) :: 16 word) = ?a div 2 ^ ?n"
    using q1 q2 b by (intro sint16_of_int) auto
  have sq2: "sint (word_of_int (- (?a div 2 ^ ?n)) :: 16 word) = - (?a div 2 ^ ?n)"
    using q1 q2 b by (intro sint16_of_int) auto
  have m0: "sint v - push_bit ?n (- (?a div 2 ^ ?n)) = - (?a mod 2 ^ ?n)"
    using minus_div_mult_eq_mod [of "- sint v" "2 ^ unat s"] by (simp add: push_bit_eq_mult)
  have m: "(word_of_int (sint v - push_bit ?n (- (?a div 2 ^ ?n))) :: 16 word)
      = word_of_int (- (?a mod 2 ^ ?n))"
    by (simp only: m0)
  show ?thesis
  proof (cases "?a div 2 ^ ?n = 0")
    case True
    then have "?a mod 2 ^ ?n = ?a"
      using minus_div_mult_eq_mod [of "- sint v" "2 ^ unat s"] by simp
    with True show ?thesis using assms s0
      by (simp add: kbapp_scaleValue_def Let_def drop_bit_eq_div)
  next
    case False
    then have "(word_of_int (?a div 2 ^ ?n) :: 16 word) \<noteq> 0"
      using q1 q2 b by (simp add: word16_of_int_0_iff)
    then show ?thesis using assms s0 sq sq2 m
      by (simp add: kbapp_scaleValue_def Let_def drop_bit_eq_div)
  qed
qed

lemma kbapp_scaleValue_general:
  assumes "sint v \<noteq> - 32768" "unat s < 32"
  shows "\<exists>q r. kbapp_scaleValue v s = Some (q, r)
     \<and> sint q = sgn (sint v) * (\<bar>sint v\<bar> div 2 ^ unat s)
     \<and> sint r = sint v - sint q * 2 ^ unat s
     \<and> kbapp_scaleValue (- v) s = Some (- q, - r)"
proof (cases "0 \<le> sint v")
  case True
  let ?a = "sint v" and ?n = "unat s"
  have b: "?a < 32768" using sint_bounds16 [of v] by simp
  have q1: "0 \<le> ?a div 2 ^ ?n" using True by (simp add: pos_imp_zdiv_nonneg_iff)
  have q2: "?a div 2 ^ ?n \<le> ?a" using True by (rule div_pow2_le)
  have sq: "sint (word_of_int (?a div 2 ^ ?n) :: 16 word) = ?a div 2 ^ ?n"
    using q1 q2 b by (intro sint16_of_int) auto
  have r1: "0 \<le> ?a mod 2 ^ ?n" by simp
  have r2: "?a mod 2 ^ ?n \<le> ?a" using True by (simp add: zmod_le_nonneg_dividend)
  have sr: "sint (word_of_int (?a mod 2 ^ ?n) :: 16 word) = ?a mod 2 ^ ?n"
    using r1 r2 b by (intro sint16_of_int; linarith)
  have e1: "kbapp_scaleValue v s = Some (word_of_int (?a div 2 ^ ?n), word_of_int (?a mod 2 ^ ?n))"
    using True assms(2) by (rule kbapp_scaleValue_nonneg)
  have sg: "sgn ?a * (\<bar>?a\<bar> div 2 ^ ?n) = ?a div 2 ^ ?n"
    using True by (cases "?a = 0") (simp_all add: sgn_if)
  have rm: "sint (word_of_int (?a mod 2 ^ ?n) :: 16 word)
      = ?a - sint (word_of_int (?a div 2 ^ ?n) :: 16 word) * 2 ^ ?n"
    unfolding sq sr by (simp add: minus_div_mult_eq_mod)
  have sg': "sint (word_of_int (?a div 2 ^ ?n) :: 16 word) = sgn ?a * (\<bar>?a\<bar> div 2 ^ ?n)"
    unfolding sq sg ..
  have e2: "kbapp_scaleValue (- v) s =
      Some (- word_of_int (?a div 2 ^ ?n), - word_of_int (?a mod 2 ^ ?n))"
  proof (cases "?a = 0")
    case z: True
    have "v = word_of_int (sint v)" by simp
    then have "v = 0" using z by simp
    then show ?thesis using assms(2) by (simp add: kbapp_scaleValue_def)
  next
    case False
    have n: "sint (- v) = - ?a" using assms(1) by (rule sint16_uminus)
    then have "sint (- v) < 0" "sint (- v) \<noteq> - 32768" using False True b by auto
    from kbapp_scaleValue_neg [OF this assms(2)] show ?thesis by (simp add: n)
  qed
  show ?thesis using e1 e2 sg' rm by blast
next
  case False
  let ?a = "- sint v" and ?n = "unat s"
  have b: "0 < ?a" "?a < 32768" using False assms sint_bounds16 [of v] by auto
  have q1: "0 \<le> ?a div 2 ^ ?n" using b by (simp add: pos_imp_zdiv_nonneg_iff)
  have q2: "?a div 2 ^ ?n \<le> ?a" using b by (intro div_pow2_le) simp
  have sq: "sint (word_of_int (- (?a div 2 ^ ?n)) :: 16 word) = - (?a div 2 ^ ?n)"
    using q1 q2 b by (intro sint16_of_int) auto
  have r1: "0 \<le> ?a mod 2 ^ ?n" by simp
  have r2: "?a mod 2 ^ ?n \<le> ?a" using b by (simp add: zmod_le_nonneg_dividend)
  have sr: "sint (word_of_int (- (?a mod 2 ^ ?n)) :: 16 word) = - (?a mod 2 ^ ?n)"
    using r1 r2 b by (intro sint16_of_int; linarith)
  have e1: "kbapp_scaleValue v s =
      Some (word_of_int (- (?a div 2 ^ ?n)), word_of_int (- (?a mod 2 ^ ?n)))"
    using False assms by (intro kbapp_scaleValue_neg) auto
  have sg: "sgn (sint v) * (\<bar>sint v\<bar> div 2 ^ ?n) = - (?a div 2 ^ ?n)"
    using False by (simp add: sgn_if)
  have rm: "sint (word_of_int (- (?a mod 2 ^ ?n)) :: 16 word)
      = sint v - sint (word_of_int (- (?a div 2 ^ ?n)) :: 16 word) * 2 ^ ?n"
    unfolding sq sr using minus_div_mult_eq_mod [of ?a "2 ^ ?n"] by simp
  have sg': "sint (word_of_int (- (?a div 2 ^ ?n)) :: 16 word)
      = sgn (sint v) * (\<bar>sint v\<bar> div 2 ^ ?n)"
    unfolding sq sg ..
  have n: "sint (- v) = ?a" using assms(1) by (rule sint16_uminus)
  have "0 \<le> sint (- v)" using n b by simp
  from kbapp_scaleValue_nonneg [OF this assms(2)]
  have e2: "kbapp_scaleValue (- v) s =
      Some (- word_of_int (- (?a div 2 ^ ?n)), - word_of_int (- (?a mod 2 ^ ?n)))"
    by (simp add: n)
  show ?thesis using e1 e2 sg' rm by blast
qed

lemma kbapp_scaleValue_by_4:
  "kbapp_scaleValue 3 2 = Some (0, 3)" "kbapp_scaleValue 6 2 = Some (1, 2)"
  "kbapp_scaleValue 5 2 = Some (1, 1)" "kbapp_scaleValue 4 2 = Some (1, 0)"
  "kbapp_scaleValue (- 3) 2 = Some (0, - 3)" "kbapp_scaleValue (- 6) 2 = Some (- 1, - 2)"
  "kbapp_scaleValue (- 5) 2 = Some (- 1, - 1)" "kbapp_scaleValue (- 4) 2 = Some (- 1, 0)"
  by (simp_all add: kbapp_scaleValue_def Let_def push_bit_eq_mult drop_bit_eq_div)

lemma kbapp_pollActivityScroll_scaled:
  assumes "scrollScale cfg \<noteq> 0" "negateScroll cfg = 0" "d \<noteq> 0"
  shows "kbapp_pollActivityScroll cfg add_event d s =
     (case kbapp_scaleValue (scrollFractional s + d) (scrollScale cfg) of
        None \<Rightarrow> None
      | Some (q, r) \<Rightarrow>
          Some (s\<lparr>scrollFractional := r, scrollEvent_motion := q, pollsSinceScroll := 0,
             eventQueue := add_event (HID_EVENT_MOTION_AXIS_0 q) (eventQueue s)\<rparr>))"
  using assms by (simp add: kbapp_pollActivityScroll_def Let_def split: option.splits)

lemma kbapp_pollActivityScroll_run_pos:
  assumes "scrollScale cfg = 2" "negateScroll cfg = 0" "scrollFractional st = 0"
  shows "map_option (\<lambda>(ms, s'). (ms, scrollFractional s'))
           (kbapp_pollActivityScroll_run cfg add_event [3, 3, 3, 3] st) = Some ([0, 1, 1, 1], 0)"
  using assms by (simp add: kbapp_pollActivityScroll_scaled kbapp_scaleValue_by_4)

lemma kbapp_pollActivityScroll_run_neg:
  assumes "scrollScale cfg = 2" "negateScroll cfg = 0" "scrollFractional st = 0"
  shows "map_option (\<lambda>(ms, s'). (ms, scrollFractional s'))
           (kbapp_pollActivityScroll_run cfg add_event [- 3, - 3, - 3, - 3] st)
         = Some ([0, - 1, - 1, - 1], 0)"
  using assms by (simp add: kbapp_pollActivityScroll_scaled kbapp_scaleValue_by_4)

text \<open>
  Away from the least \<^verbatim>\<open>int16_t\<close> the function does what its comment says. For every
  accumulator value \<open>v\<close> other than the least
  \<^verbatim>\<open>int16_t\<close> and every shift amount \<open>s\<close> below 32, \<^verbatim>\<open>kbapp_scaleValue\<close> returns a
  quotient \<open>q\<close> whose magnitude is \<open>\<bar>v\<bar>\<close> shifted right by \<open>s\<close>, with the sign of \<open>v\<close>,
  and leaves \<open>v - (q << s)\<close> in the accumulator; applied to \<open>- v\<close> it returns \<open>- q\<close> and
  leaves the negated remainder. Fed through \<^verbatim>\<open>kbapp_pollActivityScroll\<close> with a scale
  of 2 and an empty accumulator, the counts 3, 3, 3, 3 give the motions 0, 1, 1, 1 and the
  counts -3, -3, -3, -3 give 0, -1, -1, -1, both with the accumulator back at 0.
\<close>

lemma kbapp_scaleValue_sign_symmetric:
  assumes "sint v \<noteq> - 32768" and "unat s < 32"
    and "scrollScale cfg = 2" and "negateScroll cfg = 0" and "scrollFractional st = 0"
  shows "(\<exists>q r. kbapp_scaleValue v s = Some (q, r)
            \<and> sint q = sgn (sint v) * (\<bar>sint v\<bar> div 2 ^ unat s)
            \<and> sint r = sint v - sint q * 2 ^ unat s
            \<and> kbapp_scaleValue (- v) s = Some (- q, - r))
     \<and> map_option (\<lambda>(ms, s'). (ms, scrollFractional s'))
           (kbapp_pollActivityScroll_run cfg add_event [3, 3, 3, 3] st) = Some ([0, 1, 1, 1], 0)
     \<and> map_option (\<lambda>(ms, s'). (ms, scrollFractional s'))
           (kbapp_pollActivityScroll_run cfg add_event [- 3, - 3, - 3, - 3] st)
         = Some ([0, - 1, - 1, - 1], 0)"
  by (intro conjI kbapp_scaleValue_general [OF assms(1,2)]
        kbapp_pollActivityScroll_run_pos [OF assms(3,4,5)]
        kbapp_pollActivityScroll_run_neg [OF assms(3,4,5)])

lemma kbapp_scaleValue_sign_symmetric_witness:
  "sint (- 7 :: int16_t) \<noteq> - 32768 \<and> unat (1 :: uint8_t) < 32
   \<and> scrollScale kbAppConfig_sample = 2 \<and> negateScroll kbAppConfig_sample = 0
   \<and> scrollFractional kbAppState_sample = 0
   \<and> (\<exists>q r. kbapp_scaleValue (- 7) 1 = Some (q, r) \<and> kbapp_scaleValue (- (- 7)) 1 = Some (- q, - r))
   \<and> map_option (\<lambda>(ms, s'). (ms, scrollFractional s'))
        (kbapp_pollActivityScroll_run kbAppConfig_sample (\<lambda>e q. q @ [e]) [3, 3, 3, 3]
           kbAppState_sample) = Some ([0, 1, 1, 1], 0)"
proof -
  have h1: "sint (- 7 :: int16_t) \<noteq> - 32768" by simp
  have h2: "unat (1 :: uint8_t) < 32" by simp
  have h3: "scrollScale kbAppConfig_sample = 2" by (simp add: kbAppConfig_sample_def)
  have h4: "negateScroll kbAppConfig_sample = 0" by (simp add: kbAppConfig_sample_def)
  have h5: "scrollFractional kbAppState_sample = 0"
    by (simp add: kbAppState_sample_def dual_mode_keyboard_application_state_def)
  from kbapp_scaleValue_sign_symmetric [OF h1 h2 h3 h4 h5, of "\<lambda>e q. q @ [e]"] h1 h2 h3 h4 h5
  show ?thesis by blast
qed

text \<open>
  C5. The quotient of \<^verbatim>\<open>kbapp_scaleValue\<close> is to have the magnitude of \<open>\<bar>v\<bar>\<close> shifted
  right by \<open>s\<close> and the sign of \<open>v\<close>, for every \<^verbatim>\<open>int16_t\<close> accumulator value. At the
  least \<^verbatim>\<open>int16_t\<close> the code misses it: for \<open>v = -32768\<close> and a shift of 2 the branch
  for negative values negates the accumulator in 16 bits, the negation wraps back to
  \<open>-32768\<close>, the arithmetic shift gives \<open>-8192\<close>, and the second negation returns the
  quotient \<open>8192\<close>, positive for a negative value, where \<open>-8192\<close> is the scaled value. The
  accumulator is left at 0.
\<close>

theorem kbapp_scaleValue_int16_min_quotient_positive:
  "kbapp_scaleValue (- 32768) 2 = Some (8192, 0)
   \<and> sint (- 32768 :: int16_t) = - 32768 \<and> sint (8192 :: int16_t) = 8192
   \<and> sgn (sint (- 32768 :: int16_t)) * (\<bar>sint (- 32768 :: int16_t)\<bar> div 2 ^ 2) = - 8192"
  by (simp add: kbapp_scaleValue_def Let_def)


section \<open>The recovery countdown\<close>

lemma unat_sub_of_nat8:
  "k \<le> unat (w :: 8 word) \<Longrightarrow> unat (w - of_nat k) = unat w - k"
proof -
  assume a: "k \<le> unat w"
  have "unat w < 256" using unsigned_less [of w, where 'a = nat] by simp
  with a have k: "unat (of_nat k :: 8 word) = k" by (simp add: unat_of_nat)
  have "(of_nat k :: 8 word) \<le> w" using a k by (simp add: word_le_nat_alt)
  then show ?thesis using k by (simp add: unat_sub)
qed

lemma kbapp_generateAndTxReports_recovery_step:
  "recoveryInProgress s \<noteq> 0 \<Longrightarrow> recoveryInProgress s - 1 \<noteq> 0 \<Longrightarrow>
     kbapp_generateAndTxReports_recovery s = s\<lparr>recoveryInProgress := recoveryInProgress s - 1\<rparr>"
  by (simp add: kbapp_generateAndTxReports_recovery_def Let_def)

lemma kbapp_generateAndTxReports_recovery_funpow:
  "k < unat (recoveryInProgress s) \<Longrightarrow>
     (kbapp_generateAndTxReports_recovery ^^ k) s
       = s\<lparr>recoveryInProgress := recoveryInProgress s - of_nat k\<rparr>"
proof (induction k)
  case 0
  then show ?case by simp
next
  case (Suc k)
  let ?w = "recoveryInProgress s"
  let ?t = "s\<lparr>recoveryInProgress := ?w - of_nat k\<rparr>"
  have a: "unat (?w - of_nat k) = unat ?w - k" using Suc.prems by (intro unat_sub_of_nat8) simp
  have b: "unat (?w - of_nat (Suc k)) = unat ?w - Suc k" using Suc.prems by (intro unat_sub_of_nat8) simp
  have b1: "recoveryInProgress ?t - 1 = ?w - of_nat (Suc k)" by simp
  have a0: "recoveryInProgress ?t \<noteq> 0" using a Suc.prems by (auto simp: word_unat_eq_iff)
  have "unat (?w - of_nat (Suc k)) \<noteq> 0" using b Suc.prems by simp
  then have "?w - of_nat (Suc k) \<noteq> 0" by (simp only: word_unat_eq_iff unat_0 not_False_eq_True)
  then have b0: "recoveryInProgress ?t - 1 \<noteq> 0" by (simp only: b1 not_False_eq_True)
  have "(kbapp_generateAndTxReports_recovery ^^ Suc k) s
      = kbapp_generateAndTxReports_recovery ((kbapp_generateAndTxReports_recovery ^^ k) s)"
    by simp
  also have "\<dots> = kbapp_generateAndTxReports_recovery ?t"
    using Suc by simp
  also have "\<dots> = ?t\<lparr>recoveryInProgress := recoveryInProgress ?t - 1\<rparr>"
    using a0 b0 by (rule kbapp_generateAndTxReports_recovery_step)
  also have "\<dots> = s\<lparr>recoveryInProgress := ?w - of_nat (Suc k)\<rparr>"
    by (simp only: b1) simp
  finally show ?case .
qed

lemma kbapp_generateAndTxReports_recovery_end:
  assumes "recoveryInProgress s \<noteq> 0"
  shows "(kbapp_generateAndTxReports_recovery ^^ unat (recoveryInProgress s)) s
       = kbapp_txModifiedKeyReports (s\<lparr>recoveryInProgress := 0\<rparr>)"
proof -
  let ?w = "recoveryInProgress s"
  obtain k where k: "unat ?w = Suc k" using assms by (metis unat_gt_0 gr0_implies_Suc)
  have lt: "k < unat ?w" using k by simp
  have a: "unat (?w - of_nat k) = unat ?w - k" using lt by (intro unat_sub_of_nat8) simp
  then have "unat (?w - of_nat k) = 1" using k by simp
  then have one: "?w - of_nat k = 1" by (simp add: word_unat_eq_iff)
  have "(kbapp_generateAndTxReports_recovery ^^ Suc k) s
      = kbapp_generateAndTxReports_recovery (s\<lparr>recoveryInProgress := ?w - of_nat k\<rparr>)"
    using kbapp_generateAndTxReports_recovery_funpow [OF lt] by simp
  also have "\<dots> = kbapp_txModifiedKeyReports (s\<lparr>recoveryInProgress := 0\<rparr>)"
    by (simp add: one kbapp_generateAndTxReports_recovery_def Let_def)
  finally show ?thesis using k by simp
qed

lemma kbapp_txModifiedKeyReports_recovery: "recoveryInProgress s \<noteq> 0 \<Longrightarrow> kbapp_txModifiedKeyReports s = s"
  by (simp add: kbapp_txModifiedKeyReports_def)
lemma kbapp_funcLockProcEvtKey_recovery: "recoveryInProgress s \<noteq> 0 \<Longrightarrow> kbapp_funcLockProcEvtKey ud kc tc s = s"
  by (simp add: kbapp_funcLockProcEvtKey_def)


lemma kbapp_generateAndTxReports_recovery_before_end:
  assumes "k < unat (recoveryInProgress s)"
  shows "recoveryInProgress ((kbapp_generateAndTxReports_recovery ^^ k) s) \<noteq> 0
    \<and> effects ((kbapp_generateAndTxReports_recovery ^^ k) s) = effects s"
proof -
  let ?t = "(kbapp_generateAndTxReports_recovery ^^ k) s"
  have t: "?t = s\<lparr>recoveryInProgress := recoveryInProgress s - of_nat k\<rparr>"
    using assms by (rule kbapp_generateAndTxReports_recovery_funpow)
  have "unat (recoveryInProgress s - of_nat k) = unat (recoveryInProgress s) - k"
    using assms by (intro unat_sub_of_nat8) simp
  then have "recoveryInProgress ?t \<noteq> 0" using assms t by (auto simp: word_unat_eq_iff)
  then show ?thesis using t by simp
qed

text \<open>
  C4. In every state in which \<open>recoveryInProgress\<close> is not zero,
  \<^verbatim>\<open>kbapp_txModifiedKeyReports\<close> sends nothing and \<^verbatim>\<open>kbapp_funcLockProcEvtKey\<close>
  changes nothing, whatever the key event; and this stays so at every poll of the
  countdown before the one that brings the count to zero: the count is still not zero
  there and the log of transmissions has not grown.
\<close>

theorem recovery_suppresses_reports_and_func_lock:
  assumes "recoveryInProgress s \<noteq> 0"
  shows "kbapp_txModifiedKeyReports s = s
     \<and> kbapp_funcLockProcEvtKey upDownFlag keyCode translationCode s = s
     \<and> (\<forall>k. k < unat (recoveryInProgress s) \<longrightarrow>
          (let t = (kbapp_generateAndTxReports_recovery ^^ k) s
           in recoveryInProgress t \<noteq> 0 \<and> effects t = effects s
              \<and> kbapp_txModifiedKeyReports t = t
              \<and> kbapp_funcLockProcEvtKey upDownFlag keyCode translationCode t = t))"
proof (intro conjI allI impI)
  show "kbapp_txModifiedKeyReports s = s" using assms by (rule kbapp_txModifiedKeyReports_recovery)
  show "kbapp_funcLockProcEvtKey upDownFlag keyCode translationCode s = s" using assms by (rule kbapp_funcLockProcEvtKey_recovery)
next
  fix k assume k: "k < unat (recoveryInProgress s)"
  let ?t = "(kbapp_generateAndTxReports_recovery ^^ k) s"
  have t: "?t = s\<lparr>recoveryInProgress := recoveryInProgress s - of_nat k\<rparr>"
    using k by (rule kbapp_generateAndTxReports_recovery_funpow)
  have "unat (recoveryInProgress s - of_nat k) = unat (recoveryInProgress s) - k"
    using k by (intro unat_sub_of_nat8) simp
  then have nz: "recoveryInProgress ?t \<noteq> 0" using k t
    by (auto simp: word_unat_eq_iff)
  show "let t = ?t in recoveryInProgress t \<noteq> 0 \<and> effects t = effects s
              \<and> kbapp_txModifiedKeyReports t = t
              \<and> kbapp_funcLockProcEvtKey upDownFlag keyCode translationCode t = t"
    using nz kbapp_txModifiedKeyReports_recovery [OF nz] kbapp_funcLockProcEvtKey_recovery [OF nz] t by (simp add: Let_def)
qed



theorem recovery_suppresses_reports_and_func_lock_witness:
  "recoveryInProgress (kbAppState_sample\<lparr>recoveryInProgress := 3, stdRptChanged := True\<rparr>) \<noteq> 0
   \<and> kbapp_txModifiedKeyReports (kbAppState_sample\<lparr>recoveryInProgress := 3, stdRptChanged := True\<rparr>)
       = kbAppState_sample\<lparr>recoveryInProgress := 3, stdRptChanged := True\<rparr>
   \<and> kbapp_funcLockProcEvtKey KEY_DOWN 6 0
         (kbAppState_sample\<lparr>recoveryInProgress := 3, stdRptChanged := True\<rparr>)
       = kbAppState_sample\<lparr>recoveryInProgress := 3, stdRptChanged := True\<rparr>"
proof -
  let ?s = "kbAppState_sample\<lparr>recoveryInProgress := 3, stdRptChanged := True\<rparr>"
  have h: "recoveryInProgress ?s \<noteq> 0" by simp
  from recovery_suppresses_reports_and_func_lock [OF h, of KEY_DOWN 6 0] h
  show ?thesis by blast
qed

section \<open>The error response\<close>

lemmas clear_defs = kbapp_clearAllReports_def kbapp_scrollRptClear_def kbapp_pinRptClear_def
  kbapp_slpRptClear_def kbapp_bitRptClear_def kbapp_stdRptClear_def
lemmas send_defs = kbapp_stdRptSend_def kbapp_bitRptSend_def kbapp_slpRptSend_def
  kbapp_funcLockRptSend_def kbapp_scrollRptSend_def kbapp_stdRptRolloverSend_def

lemmas sample_defs = kbAppConfig_sample_def kbAppState_sample_def
  dual_mode_keyboard_application_state_def
lemmas const_defs = KEY_DOWN_def PROTOCOL_BOOT_def PROTOCOL_REPORT_def FUNC_LOCK_STATE_OFF_def
  FUNC_LOCK_STATE_ON_def

lemma kbapp_stdErrResp_flags:
  "stdRptChanged (kbapp_stdErrResp cfg s) \<and> bitRptChanged (kbapp_stdErrResp cfg s)
   \<and> slpRptChanged (kbapp_stdErrResp cfg s) \<and> \<not> funcLockRptChanged (kbapp_stdErrResp cfg s)
   \<and> \<not> scrollRptChanged (kbapp_stdErrResp cfg s)"
  by (simp add: kbapp_stdErrResp_def Let_def clear_defs send_defs kbapp_connectButtonHandler_def)

lemma kbapp_stdErrResp_fields:
  "recoveryInProgress (kbapp_stdErrResp cfg s) = recoveryPollCount cfg"
  "kbapp_protocol (kbapp_stdErrResp cfg s) = kbapp_protocol s"
  "stdRpt_modifierKeys (kbapp_stdErrResp cfg s) = 0"
  "stdRpt_keyCodes (kbapp_stdErrResp cfg s) = replicate (length (stdRpt_keyCodes s)) 0"
  "bitMappedReport_bitMappedKeys (kbapp_stdErrResp cfg s)
     = replicate (length (bitMappedReport_bitMappedKeys s)) 0"
  "slpRpt_sleepVal (kbapp_stdErrResp cfg s) = 0"
  "funcLockInfo_kepPosition (kbapp_stdErrResp cfg s) = FUNC_LOCK_KEY_UP"
  "funcLockInfo_state (kbapp_stdErrResp cfg s) = funcLockInfo_state s"
  by (simp_all add: kbapp_stdErrResp_def Let_def clear_defs send_defs kbapp_connectButtonHandler_def)

lemma kbapp_stdErrResp_effects:
  "effects (kbapp_stdErrResp cfg s) =
     (if recoveryInProgress s = 0
      then effects s @ [SendRolloverRpt (rolloverRpt_modifierKeys s) (rolloverRpt_keyCodes s)]
      else effects s)"
  by (simp add: kbapp_stdErrResp_def Let_def clear_defs send_defs kbapp_connectButtonHandler_def)

lemma kbapp_txModifiedKeyReports_after_error:
  assumes "stdRptChanged e" "bitRptChanged e" "slpRptChanged e" "\<not> funcLockRptChanged e"
    "\<not> scrollRptChanged e"
  shows "effects (kbapp_txModifiedKeyReports (e\<lparr>recoveryInProgress := 0\<rparr>)) =
     effects e @ SendStdRpt (stdRpt_modifierKeys e) (stdRpt_keyCodes e)
       # (if kbapp_protocol e = PROTOCOL_REPORT
          then [SendBitRpt (bitMappedReport_bitMappedKeys e), SendSlpRpt (slpRpt_sleepVal e)]
          else [])"
  using assms by (simp add: kbapp_txModifiedKeyReports_def Let_def send_defs)


text \<open>
  C1. The comment of \<^verbatim>\<open>kbapp_stdErrResp\<close> has all reports cleared and marked as
  modified, to be sent once the recovery is over, and the comment at its last assignment
  says the same. The assignment itself sets \<^verbatim>\<open>slpRptChanged\<close>, \<^verbatim>\<open>bitRptChanged\<close> and
  \<^verbatim>\<open>stdRptChanged\<close> only, after \<^verbatim>\<open>kbapp_clearAllReports\<close> has reset every flag. On
  a state whose func-lock and scroll reports are both waiting to be sent, the response
  leaves the standard, bit mapped and sleep reports marked as changed and the func-lock and
  scroll reports marked as unchanged.
\<close>

theorem kbapp_stdErrResp_func_lock_scroll_not_marked:
  "stdRptChanged (kbapp_stdErrResp kbAppConfig_sample
          (kbAppState_sample\<lparr>funcLockRptChanged := True, scrollRptChanged := True\<rparr>))
   \<and> bitRptChanged (kbapp_stdErrResp kbAppConfig_sample
          (kbAppState_sample\<lparr>funcLockRptChanged := True, scrollRptChanged := True\<rparr>))
   \<and> slpRptChanged (kbapp_stdErrResp kbAppConfig_sample
          (kbAppState_sample\<lparr>funcLockRptChanged := True, scrollRptChanged := True\<rparr>))
   \<and> \<not> funcLockRptChanged (kbapp_stdErrResp kbAppConfig_sample
          (kbAppState_sample\<lparr>funcLockRptChanged := True, scrollRptChanged := True\<rparr>))
   \<and> \<not> scrollRptChanged (kbapp_stdErrResp kbAppConfig_sample
          (kbAppState_sample\<lparr>funcLockRptChanged := True, scrollRptChanged := True\<rparr>))
   \<and> recoveryInProgress (kbapp_stdErrResp kbAppConfig_sample
          (kbAppState_sample\<lparr>funcLockRptChanged := True, scrollRptChanged := True\<rparr>)) = 3"
  by (simp add: kbapp_stdErrResp_def Let_def clear_defs send_defs kbapp_connectButtonHandler_def
        kbAppConfig_sample_def kbAppState_sample_def dual_mode_keyboard_application_state_def)

section \<open>Protocol switch\<close>

text \<open>
  The BR/EDR callback \<^verbatim>\<open>kbapp_setProtocol\<close>. A request that takes the protocol from
  boot to report clears the bit mapped report with its key counter, the sleep report and
  the scroll report, and marks the func-lock key as up, whatever the state before. A
  request for the protocol that is already set, or for boot, changes nothing but the
  protocol variable.
\<close>

lemma kbapp_setProtocol_clears_on_boot_to_report:
 "(kbapp_protocol s = PROTOCOL_BOOT \<longrightarrow>
     (let s' = kbapp_setProtocol cfg HID_PAR_PROTOCOL_REPORT s in
        bitMappedReport_bitMappedKeys s' = replicate (length (bitMappedReport_bitMappedKeys s)) 0
      \<and> keysInBitRpt s' = 0 \<and> bitMappedReport_reportID s' = bitReportID cfg
      \<and> slpRpt_sleepVal s' = 0 \<and> slpRpt_reportID s' = sleepReportID cfg
      \<and> scrollReport_motionAxis0 s' = 0 \<and> scrollReport_reportID s' = scrollReportID cfg
      \<and> \<not> scrollRptChanged s'
      \<and> funcLockInfo_kepPosition s' = FUNC_LOCK_KEY_UP \<and> kbapp_protocol s' = PROTOCOL_REPORT))
  \<and> (newProtocol = kbapp_protocol s \<or> newProtocol = PROTOCOL_BOOT \<longrightarrow>
       kbapp_setProtocol cfg newProtocol s = s\<lparr>kbapp_protocol := newProtocol\<rparr>)"
  by (simp add: kbapp_setProtocol_def Let_def PROTOCOL_BOOT_def PROTOCOL_REPORT_def
        HID_PAR_PROTOCOL_REPORT_def kbapp_scrollRptClear_def kbapp_slpRptClear_def kbapp_bitRptClear_def)


lemma kbapp_setProtocol_clears_on_boot_to_report_witness:
  "kbapp_protocol (kbAppState_sample\<lparr>kbapp_protocol := PROTOCOL_BOOT, keysInBitRpt := 1,
        bitMappedReport_bitMappedKeys := [1, 0, 0],
        funcLockInfo_kepPosition := FUNC_LOCK_KEY_DOWN\<rparr>) = PROTOCOL_BOOT
   \<and> keysInBitRpt (kbapp_setProtocol kbAppConfig_sample HID_PAR_PROTOCOL_REPORT
        (kbAppState_sample\<lparr>kbapp_protocol := PROTOCOL_BOOT, keysInBitRpt := 1,
           bitMappedReport_bitMappedKeys := [1, 0, 0],
           funcLockInfo_kepPosition := FUNC_LOCK_KEY_DOWN\<rparr>)) = 0
   \<and> funcLockInfo_kepPosition (kbapp_setProtocol kbAppConfig_sample HID_PAR_PROTOCOL_REPORT
        (kbAppState_sample\<lparr>kbapp_protocol := PROTOCOL_BOOT, keysInBitRpt := 1,
           bitMappedReport_bitMappedKeys := [1, 0, 0],
           funcLockInfo_kepPosition := FUNC_LOCK_KEY_DOWN\<rparr>)) = FUNC_LOCK_KEY_UP"
proof -
  let ?s = "kbAppState_sample\<lparr>kbapp_protocol := PROTOCOL_BOOT, keysInBitRpt := 1,
        bitMappedReport_bitMappedKeys := [1, 0, 0],
        funcLockInfo_kepPosition := FUNC_LOCK_KEY_DOWN\<rparr>"
  have h: "kbapp_protocol ?s = PROTOCOL_BOOT" by simp
  from kbapp_setProtocol_clears_on_boot_to_report [of ?s kbAppConfig_sample PROTOCOL_BOOT] h
  show ?thesis by (simp add: Let_def)
qed


text \<open>
  C7. A set-protocol request that takes the protocol from boot to report is to clear the
  bit mapped report with its key counter, the sleep report and the scroll report, and to
  mark the func-lock key as up. On LE the request is a write to the Protocol Mode
  characteristic, served by \<^verbatim>\<open>blekb_setProtocol\<close>, which does none of it. In boot
  protocol, with one bit mapped key down, the sleep bit 1 set, a scroll count of 5 and the
  func-lock key down, the write of the report protocol changes \<^verbatim>\<open>kbapp_protocol\<close> and
  registers the report mode map, and leaves the three reports and the key position as they
  were; \<^verbatim>\<open>kbapp_setProtocol\<close> on the same state clears them.
\<close>

theorem blekb_setProtocol_boot_to_report_clears_nothing:
  "blekb_setProtocol 0 0 [PROTOCOL_REPORT]
     (kbAppState_sample\<lparr>kbapp_protocol := PROTOCOL_BOOT, keysInBitRpt := 1,
        bitMappedReport_bitMappedKeys := [1, 0, 0], slpRpt_sleepVal := 1,
        scrollReport_motionAxis0 := 5, funcLockInfo_kepPosition := FUNC_LOCK_KEY_DOWN\<rparr>)
   = Some (kbAppState_sample\<lparr>kbapp_protocol := PROTOCOL_REPORT, keysInBitRpt := 1,
        bitMappedReport_bitMappedKeys := [1, 0, 0], slpRpt_sleepVal := 1,
        scrollReport_motionAxis0 := 5, funcLockInfo_kepPosition := FUNC_LOCK_KEY_DOWN,
        effects := [RegisterReportModeGattMap]\<rparr>)
   \<and> kbapp_setProtocol kbAppConfig_sample HID_PAR_PROTOCOL_REPORT
     (kbAppState_sample\<lparr>kbapp_protocol := PROTOCOL_BOOT, keysInBitRpt := 1,
        bitMappedReport_bitMappedKeys := [1, 0, 0], slpRpt_sleepVal := 1,
        scrollReport_motionAxis0 := 5, funcLockInfo_kepPosition := FUNC_LOCK_KEY_DOWN\<rparr>)
   = kbAppState_sample\<lparr>kbapp_protocol := PROTOCOL_REPORT, keysInBitRpt := 0,
        bitMappedReport_reportID := 2, bitMappedReport_bitMappedKeys := [0, 0, 0],
        slpRpt_reportID := 3, slpRpt_sleepVal := 0,
        scrollReport_reportID := 6, scrollReport_motionAxis0 := 0,
        funcLockInfo_kepPosition := FUNC_LOCK_KEY_UP\<rparr>"
  by (simp add: blekb_setProtocol_def kbapp_setProtocol_def Let_def PROTOCOL_BOOT_def
        PROTOCOL_REPORT_def HID_PAR_PROTOCOL_REPORT_def kbapp_scrollRptClear_def
        kbapp_slpRptClear_def kbapp_bitRptClear_def kbAppConfig_sample_def kbAppState_sample_def
        dual_mode_keyboard_application_state_def numeral_3_eq_3)


section \<open>The standard report\<close>

lemma stdRpt_keys_drop_Cons:
  assumes "i < unat (keysInStdRpt s)" "unat (keysInStdRpt s) \<le> length (stdRpt_keyCodes s)"
  shows "drop i (stdRpt_keys s) = stdRpt_keyCodes s ! i # drop (Suc i) (stdRpt_keys s)"
proof -
  have "i < length (stdRpt_keys s)" using assms by (simp add: stdRpt_keys_def)
  then have "drop i (stdRpt_keys s) = stdRpt_keys s ! i # drop (Suc i) (stdRpt_keys s)"
    by (simp add: Cons_nth_drop_Suc)
  moreover have "stdRpt_keys s ! i = stdRpt_keyCodes s ! i"
    using assms by (simp add: stdRpt_keys_def)
  ultimately show ?thesis by simp
qed

lemma kbapp_stdRptProcEvtKeyDown_loop_absent:
  "unat (keysInStdRpt s) \<le> length (stdRpt_keyCodes s) \<Longrightarrow> i \<le> unat (keysInStdRpt s)
   \<Longrightarrow> c \<notin> set (drop i (stdRpt_keys s))
   \<Longrightarrow> kbapp_stdRptProcEvtKeyDown_loop c i s = Some (False, unat (keysInStdRpt s))"
proof (induction c i s rule: kbapp_stdRptProcEvtKeyDown_loop.induct)
  case (1 c i s)
  show ?case
  proof (cases "i < unat (keysInStdRpt s)")
    case True
    then have len: "i < length (stdRpt_keyCodes s)" using "1.prems" by simp
    have d: "drop i (stdRpt_keys s) = stdRpt_keyCodes s ! i # drop (Suc i) (stdRpt_keys s)"
      using True "1.prems"(1) by (rule stdRpt_keys_drop_Cons)
    then have ne: "stdRpt_keyCodes s ! i \<noteq> c" and rest: "c \<notin> set (drop (Suc i) (stdRpt_keys s))"
      using "1.prems"(3) by auto
    have "kbapp_stdRptProcEvtKeyDown_loop c (Suc i) s = Some (False, unat (keysInStdRpt s))"
      using True len ne rest "1.prems"(1) by (intro "1.IH") auto
    then show ?thesis using True len ne
      by (subst kbapp_stdRptProcEvtKeyDown_loop.simps) simp
  next
    case False
    then have "i = unat (keysInStdRpt s)" using "1.prems" by simp
    then show ?thesis by (subst kbapp_stdRptProcEvtKeyDown_loop.simps) simp
  qed
qed



lemma kbapp_stdRptProcEvtKeyDown_room:
  assumes "unat (keysInStdRpt s) \<le> length (stdRpt_keyCodes s)" "c \<notin> set (stdRpt_keys s)"
    "unat (keysInStdRpt s) < unat (maxKeysInStdRpt cfg)"
    "unat (keysInStdRpt s) < length (stdRpt_keyCodes s)"
  shows "kbapp_stdRptProcEvtKeyDown cfg ud kc c s =
     Some (s\<lparr>stdRpt_keyCodes := (stdRpt_keyCodes s)[unat (keysInStdRpt s) := c],
              keysInStdRpt := keysInStdRpt s + 1, stdRptChanged := True\<rparr>)"
proof -
  have "kbapp_stdRptProcEvtKeyDown_loop c 0 s = Some (False, unat (keysInStdRpt s))"
    using assms by (intro kbapp_stdRptProcEvtKeyDown_loop_absent) auto
  then show ?thesis using assms by (simp add: kbapp_stdRptProcEvtKeyDown_def)
qed

lemma kbapp_stdRptProcEvtKeyDown_full:
  assumes "unat (keysInStdRpt s) \<le> length (stdRpt_keyCodes s)" "c \<notin> set (stdRpt_keys s)"
    "unat (maxKeysInStdRpt cfg) \<le> unat (keysInStdRpt s)"
  shows "kbapp_stdRptProcEvtKeyDown cfg ud kc c s = Some (kbapp_stdRptProcOverflow cfg s)"
proof -
  have "kbapp_stdRptProcEvtKeyDown_loop c 0 s = Some (False, unat (keysInStdRpt s))"
    using assms by (intro kbapp_stdRptProcEvtKeyDown_loop_absent) auto
  then show ?thesis using assms by (simp add: kbapp_stdRptProcEvtKeyDown_def)
qed












section \<open>Func-lock\<close>

lemma funcLock_context_std_update:
  "funcLock_context (s\<lparr>keysInStdRpt := a, stdRpt_keyCodes := b, stdRptChanged := d\<rparr>)
     = funcLock_context s"
  by (simp add: funcLock_context_def)

lemma kbapp_stdRptProcEvtKeyUp_loop_context:
  "kbapp_stdRptProcEvtKeyUp_loop c i s = Some s' \<Longrightarrow> funcLock_context s' = funcLock_context s"
proof (induction c i s rule: kbapp_stdRptProcEvtKeyUp_loop.induct)
  case (1 c i s)
  let ?u = "s\<lparr>keysInStdRpt := keysInStdRpt s - 1,
              stdRpt_keyCodes :=
                ((stdRpt_keyCodes s)[i := stdRpt_keyCodes s ! unat (keysInStdRpt s - 1)])
                  [unat (keysInStdRpt s - 1) := 0],
              stdRptChanged := True\<rparr>"
  show ?case
  proof (cases "i < unat (keysInStdRpt s)")
    case False
    with "1.prems" show ?thesis by (subst (asm) kbapp_stdRptProcEvtKeyUp_loop.simps) simp
  next
    case lt: True
    show ?thesis
    proof (cases "i < length (stdRpt_keyCodes s)")
      case False
      with lt "1.prems" show ?thesis by (subst (asm) kbapp_stdRptProcEvtKeyUp_loop.simps) simp
    next
      case len: True
      show ?thesis
      proof (cases "stdRpt_keyCodes s ! i = c")
        case False
        with lt len "1.prems" have "kbapp_stdRptProcEvtKeyUp_loop c (Suc i) s = Some s'"
          by (subst (asm) kbapp_stdRptProcEvtKeyUp_loop.simps) simp
        with lt len False show ?thesis by (intro "1.IH"(2)) auto
      next
        case eq: True
        show ?thesis
        proof (cases "unat (keysInStdRpt s - 1) < length (stdRpt_keyCodes s)")
          case False
          with lt len eq "1.prems" show ?thesis
            by (subst (asm) kbapp_stdRptProcEvtKeyUp_loop.simps) simp
        next
          case True
          with lt len eq "1.prems" have "kbapp_stdRptProcEvtKeyUp_loop c (Suc i) ?u = Some s'"
            by (subst (asm) kbapp_stdRptProcEvtKeyUp_loop.simps) simp
          with lt len eq True have "funcLock_context s' = funcLock_context ?u"
            by (intro "1.IH"(1)) auto
          then show ?thesis by (simp add: funcLock_context_std_update)
        qed
      qed
    qed
  qed
qed

lemma kbapp_stdRptProcEvtKeyDown_context:
  "kbapp_stdRptProcEvtKeyDown cfg ud kc c s = Some s' \<Longrightarrow>
     funcLock_context s' = funcLock_context s \<or> s' = kbapp_stdRptProcOverflow cfg s"
  by (auto simp: kbapp_stdRptProcEvtKeyDown_def funcLock_context_def
      split: Option.bind_splits if_splits prod.splits)

lemma kbapp_bitRptProcEvtKey_context:
  "kbapp_bitRptProcEvtKey cfg ud kc rc s = Some s' \<Longrightarrow> funcLock_context s' = funcLock_context s"
  by (auto simp: kbapp_bitRptProcEvtKey_def funcLock_context_def Let_def split: if_splits)

lemma kbapp_stdRptProcOverflow_func_lock:
  "funcLockInfo_kepPosition (kbapp_stdRptProcOverflow cfg s) = FUNC_LOCK_KEY_UP"
  "funcLockInfo_state (kbapp_stdRptProcOverflow cfg s) = funcLockInfo_state s"
  by (simp_all add: kbapp_stdRptProcOverflow_def kbapp_stdErrRespWithFwHwReset_def
        kbapp_stdErrResp_def Let_def clear_defs send_defs kbapp_connectButtonHandler_def)

lemma kbapp_funcLockProcEvtDepKey_up_context:
  assumes "kbapp_funcLockProcEvtDepKey cfg ud kc idx s = Some s'" "ud \<noteq> KEY_DOWN"
  shows "funcLock_context s' = funcLock_context s"
proof -
  from assms obtain b c s1 where
    "kbapp_stdRptProcEvtKeyUp ud kc c s = Some s1" "kbapp_bitRptProcEvtKey cfg ud kc b s1 = Some s'"
    by (auto simp: kbapp_funcLockProcEvtDepKey_def kbapp_stdRptProcEvtKey_def
        split: Option.bind_splits prod.splits)
  then show ?thesis
    using kbapp_stdRptProcEvtKeyUp_loop_context [of c 0 s s1] kbapp_bitRptProcEvtKey_context [of cfg ud kc b s1 s']
    by (simp add: kbapp_stdRptProcEvtKeyUp_def)
qed

lemma kbapp_funcLockProcEvtDepKey_down_context:
  assumes "kbapp_funcLockProcEvtDepKey cfg KEY_DOWN kc idx s = Some s'"
  shows "funcLockInfo_state s' = funcLockInfo_state s
    \<and> ((funcLockInfo_kepPosition s' = funcLockInfo_kepPosition s
          \<and> recoveryInProgress s' = recoveryInProgress s
          \<and> kbapp_protocol s' = kbapp_protocol s
          \<and> funcLockInfo_toggleStateOnKeyUp s')
        \<or> funcLockInfo_kepPosition s' = FUNC_LOCK_KEY_UP)"
proof -
  from assms obtain b c s1 where
    s1: "kbapp_stdRptProcEvtKeyDown cfg KEY_DOWN kc c s = Some s1
         \<or> kbapp_bitRptProcEvtKey cfg KEY_DOWN kc b s = Some s1"
    and s': "s' = s1\<lparr>funcLockInfo_toggleStateOnKeyUp := True\<rparr>"
    by (auto simp: kbapp_funcLockProcEvtDepKey_def kbapp_stdRptProcEvtKey_def
        split: Option.bind_splits prod.splits if_splits)
  from s1 have "funcLock_context s1 = funcLock_context s \<or> s1 = kbapp_stdRptProcOverflow cfg s"
    using kbapp_stdRptProcEvtKeyDown_context kbapp_bitRptProcEvtKey_context by blast
  then show ?thesis
  proof
    assume "funcLock_context s1 = funcLock_context s"
    then show ?thesis using s' by (simp add: funcLock_context_def)
  next
    assume "s1 = kbapp_stdRptProcOverflow cfg s"
    then show ?thesis using s' by (simp add: kbapp_stdRptProcOverflow_func_lock)
  qed
qed

lemma kbapp_funcLockProcEvtKey_down:
  assumes "recoveryInProgress s = 0" "kbapp_protocol s = PROTOCOL_REPORT"
    "funcLockInfo_kepPosition s = FUNC_LOCK_KEY_UP"
  shows "funcLock_context (kbapp_funcLockProcEvtKey KEY_DOWN kc tc s)
     = (funcLock_toggled (funcLockInfo_state s), FUNC_LOCK_KEY_DOWN, False, 0, PROTOCOL_REPORT)"
  using assms
  by (simp add: kbapp_funcLockProcEvtKey_def kbapp_funcLockToggle_def funcLock_context_def
        funcLock_toggled_def Let_def)

lemma kbapp_funcLockProcEvtKey_up:
  assumes "funcLock_context s = (st, FUNC_LOCK_KEY_DOWN, t, 0, PROTOCOL_REPORT)" "ud \<noteq> KEY_DOWN"
  shows "funcLockInfo_state (kbapp_funcLockProcEvtKey ud kc tc s)
     = (if t then funcLock_toggled st else st)"
  using assms
  by (simp add: kbapp_funcLockProcEvtKey_def kbapp_funcLockToggle_def funcLock_context_def
        funcLock_toggled_def Let_def)


text \<open>
  C6, as the code has it. With no recovery in progress, report protocol active and the
  func-lock key tracked as up, func-lock down followed by func-lock up toggles the lock
  state once. Func-lock down, dependent key down, dependent key up, func-lock up toggles it
  twice, provided the func-lock key is still tracked as down after the dependent key-down,
  that is, provided that key-down did not run into the overflow of the standard report.
\<close>

theorem kbapp_funcLock_toggle_counts:
  assumes "recoveryInProgress s = 0" and "kbapp_protocol s = PROTOCOL_REPORT"
    and "funcLockInfo_kepPosition s = FUNC_LOCK_KEY_UP" and "upFlag \<noteq> KEY_DOWN"
  shows "funcLockInfo_state
           (kbapp_funcLockProcEvtKey upFlag keyCode tc (kbapp_funcLockProcEvtKey KEY_DOWN keyCode tc s))
         = funcLock_toggled (funcLockInfo_state s)
    \<and> (\<forall>s2 s3.
          kbapp_funcLockProcEvtDepKey cfg KEY_DOWN depKey idx
              (kbapp_funcLockProcEvtKey KEY_DOWN keyCode tc s) = Some s2
          \<and> funcLockInfo_kepPosition s2 = FUNC_LOCK_KEY_DOWN
          \<and> kbapp_funcLockProcEvtDepKey cfg upFlag depKey idx s2 = Some s3
          \<longrightarrow> funcLockInfo_state (kbapp_funcLockProcEvtKey upFlag keyCode tc s3)
               = funcLock_toggled (funcLock_toggled (funcLockInfo_state s)))"
proof (intro conjI allI impI)
  let ?s1 = "kbapp_funcLockProcEvtKey KEY_DOWN keyCode tc s"
  have c1: "funcLock_context ?s1
     = (funcLock_toggled (funcLockInfo_state s), FUNC_LOCK_KEY_DOWN, False, 0, PROTOCOL_REPORT)"
    using assms(1-3) by (rule kbapp_funcLockProcEvtKey_down)
  show "funcLockInfo_state (kbapp_funcLockProcEvtKey upFlag keyCode tc ?s1)
         = funcLock_toggled (funcLockInfo_state s)"
    using kbapp_funcLockProcEvtKey_up [OF c1 assms(4)] by simp
  fix s2 s3
  assume a: "kbapp_funcLockProcEvtDepKey cfg KEY_DOWN depKey idx ?s1 = Some s2
          \<and> funcLockInfo_kepPosition s2 = FUNC_LOCK_KEY_DOWN
          \<and> kbapp_funcLockProcEvtDepKey cfg upFlag depKey idx s2 = Some s3"
  from a kbapp_funcLockProcEvtDepKey_down_context [of cfg depKey idx ?s1 s2] c1
  have c2: "funcLock_context s2
     = (funcLock_toggled (funcLockInfo_state s), FUNC_LOCK_KEY_DOWN, True, 0, PROTOCOL_REPORT)"
    by (auto simp: funcLock_context_def)
  from a kbapp_funcLockProcEvtDepKey_up_context [of cfg upFlag depKey idx s2 s3] assms(4) c2
  have c3: "funcLock_context s3
     = (funcLock_toggled (funcLockInfo_state s), FUNC_LOCK_KEY_DOWN, True, 0, PROTOCOL_REPORT)"
    by simp
  show "funcLockInfo_state (kbapp_funcLockProcEvtKey upFlag keyCode tc s3)
               = funcLock_toggled (funcLock_toggled (funcLockInfo_state s))"
    using kbapp_funcLockProcEvtKey_up [OF c3 assms(4)] by simp
qed


theorem kbapp_funcLock_toggle_counts_witness:
  "recoveryInProgress (kbAppState_sample\<lparr>funcLockInfo_state := FUNC_LOCK_STATE_ON\<rparr>) = 0
   \<and> kbapp_protocol (kbAppState_sample\<lparr>funcLockInfo_state := FUNC_LOCK_STATE_ON\<rparr>) = PROTOCOL_REPORT
   \<and> funcLockInfo_kepPosition (kbAppState_sample\<lparr>funcLockInfo_state := FUNC_LOCK_STATE_ON\<rparr>)
       = FUNC_LOCK_KEY_UP
   \<and> (1 :: uint8_t) \<noteq> KEY_DOWN
   \<and> (\<exists>s2 s3.
         kbapp_funcLockProcEvtDepKey kbAppConfig_sample KEY_DOWN 7 0
           (kbapp_funcLockProcEvtKey KEY_DOWN 6 0
              (kbAppState_sample\<lparr>funcLockInfo_state := FUNC_LOCK_STATE_ON\<rparr>)) = Some s2
         \<and> funcLockInfo_kepPosition s2 = FUNC_LOCK_KEY_DOWN
         \<and> kbapp_funcLockProcEvtDepKey kbAppConfig_sample 1 7 0 s2 = Some s3
         \<and> funcLockInfo_state (kbapp_funcLockProcEvtKey 1 6 0 s3)
             = funcLock_toggled (funcLock_toggled FUNC_LOCK_STATE_ON))"
proof -
  let ?s = "kbAppState_sample\<lparr>funcLockInfo_state := FUNC_LOCK_STATE_ON\<rparr>"
  have h1: "recoveryInProgress ?s = 0" by (simp add: sample_defs)
  have h2: "kbapp_protocol ?s = PROTOCOL_REPORT" by (simp add: sample_defs)
  have h3: "funcLockInfo_kepPosition ?s = FUNC_LOCK_KEY_UP" by (simp add: sample_defs)
  have h4: "(1 :: uint8_t) \<noteq> KEY_DOWN" by (simp add: KEY_DOWN_def)
  obtain s2 where s2: "kbapp_funcLockProcEvtDepKey kbAppConfig_sample KEY_DOWN 7 0
           (kbapp_funcLockProcEvtKey KEY_DOWN 6 0 ?s) = Some s2"
      "funcLockInfo_kepPosition s2 = FUNC_LOCK_KEY_DOWN"
      "kbapp_funcLockProcEvtDepKey kbAppConfig_sample 1 7 0 s2 \<noteq> None"
    by (simp add: sample_defs const_defs kbapp_funcLockProcEvtDepKey_def
        kbFuncLockDepKeyTransTab_at_def kbFuncLockDepKeyTransTab_def USB_USAGE_F1_def
        kbapp_stdRptProcEvtKey_def kbapp_stdRptProcEvtKeyDown_def kbapp_stdRptProcEvtKeyUp_def
        kbapp_stdRptProcEvtKeyDown_loop.simps kbapp_stdRptProcEvtKeyUp_loop.simps
        kbapp_bitRptProcEvtKey_def bitOffsetToByteValue_def
        kbapp_funcLockProcEvtKey_def kbapp_funcLockToggle_def Let_def)
  then obtain s3 where s3: "kbapp_funcLockProcEvtDepKey kbAppConfig_sample 1 7 0 s2 = Some s3"
    by auto
  from kbapp_funcLock_toggle_counts [OF h1 h2 h3 h4, of 6 0 kbAppConfig_sample 7 0] s2 s3
  have "funcLockInfo_state (kbapp_funcLockProcEvtKey 1 6 0 s3)
             = funcLock_toggled (funcLock_toggled (funcLockInfo_state ?s))" by blast
  then have "funcLockInfo_state (kbapp_funcLockProcEvtKey 1 6 0 s3)
             = funcLock_toggled (funcLock_toggled FUNC_LOCK_STATE_ON)" by simp
  with h1 h2 h3 h4 s2 s3 show ?thesis by blast
qed



text \<open>
  C6 as stated fails when the standard report is full: with the lock off, func-lock down
  turns the lock on and sends the dependent key to the standard report, which overflows;
  the error response marks the func-lock key as up and starts a recovery, the func-lock up
  is ignored, and the lock has been toggled once.
\<close>

theorem kbapp_funcLock_overflow_counterexample:
  "recoveryInProgress (kbAppState_sample\<lparr>stdRpt_keyCodes := [4, 5, 6, 7, 8, 9], keysInStdRpt := 6\<rparr>) = 0
   \<and> kbapp_protocol (kbAppState_sample\<lparr>stdRpt_keyCodes := [4, 5, 6, 7, 8, 9], keysInStdRpt := 6\<rparr>)
       = PROTOCOL_REPORT
   \<and> funcLockInfo_kepPosition
         (kbAppState_sample\<lparr>stdRpt_keyCodes := [4, 5, 6, 7, 8, 9], keysInStdRpt := 6\<rparr>)
       = FUNC_LOCK_KEY_UP
   \<and> funcLockInfo_state
         (kbAppState_sample\<lparr>stdRpt_keyCodes := [4, 5, 6, 7, 8, 9], keysInStdRpt := 6\<rparr>)
       = FUNC_LOCK_STATE_OFF
   \<and> map_option (\<lambda>s3. funcLockInfo_state (kbapp_funcLockProcEvtKey 1 6 0 s3))
        (do {
           s2 \<leftarrow> kbapp_funcLockProcEvtDepKey kbAppConfig_sample KEY_DOWN 7 0
                  (kbapp_funcLockProcEvtKey KEY_DOWN 6 0
                     (kbAppState_sample\<lparr>stdRpt_keyCodes := [4, 5, 6, 7, 8, 9], keysInStdRpt := 6\<rparr>));
           kbapp_funcLockProcEvtDepKey kbAppConfig_sample 1 7 0 s2
         })
       = Some FUNC_LOCK_STATE_ON
   \<and> funcLock_toggled (funcLock_toggled FUNC_LOCK_STATE_OFF) = FUNC_LOCK_STATE_OFF
   \<and> FUNC_LOCK_STATE_ON \<noteq> FUNC_LOCK_STATE_OFF"
  by (simp add: sample_defs const_defs kbapp_funcLockProcEvtDepKey_def
        kbFuncLockDepKeyTransTab_at_def kbFuncLockDepKeyTransTab_def USB_USAGE_F1_def
        kbapp_stdRptProcEvtKey_def kbapp_stdRptProcEvtKeyDown_def kbapp_stdRptProcEvtKeyUp_def
        kbapp_stdRptProcEvtKeyDown_loop.simps kbapp_stdRptProcEvtKeyUp_loop.simps
        kbapp_bitRptProcEvtKey_def bitOffsetToByteValue_def
        kbapp_funcLockProcEvtKey_def kbapp_funcLockToggle_def funcLock_toggled_def
        kbapp_stdRptProcOverflow_def kbapp_stdErrRespWithFwHwReset_def kbapp_stdErrResp_def
        clear_defs send_defs kbapp_connectButtonHandler_def Let_def)


section \<open>Overflow of the standard report\<close>

lemma kbapp_stdRptProcEvtKey_presses_append:
  "kbapp_stdRptProcEvtKey_presses cfg (ks @ ks') s =
     Option.bind (kbapp_stdRptProcEvtKey_presses cfg ks s) (kbapp_stdRptProcEvtKey_presses cfg ks')"
  by (induction ks arbitrary: s) (auto split: Option.bind_split)

lemma kbapp_stdRptProcEvtKey_presses_room:
  "distinct (map snd ks) \<Longrightarrow> set (map snd ks) \<inter> set (stdRpt_keys s) = {}
   \<Longrightarrow> unat (keysInStdRpt s) + length ks \<le> unat (maxKeysInStdRpt cfg)
   \<Longrightarrow> unat (maxKeysInStdRpt cfg) \<le> length (stdRpt_keyCodes s)
   \<Longrightarrow> \<exists>s'. kbapp_stdRptProcEvtKey_presses cfg ks s = Some s'
         \<and> stdRpt_keys s' = stdRpt_keys s @ map snd ks
         \<and> unat (keysInStdRpt s') = unat (keysInStdRpt s) + length ks
         \<and> length (stdRpt_keyCodes s') = length (stdRpt_keyCodes s)
         \<and> effects s' = effects s \<and> recoveryInProgress s' = recoveryInProgress s
         \<and> rolloverRpt_modifierKeys s' = rolloverRpt_modifierKeys s
         \<and> rolloverRpt_keyCodes s' = rolloverRpt_keyCodes s"
proof (induction ks arbitrary: s)
  case Nil
  then show ?case by simp
next
  case (Cons k ks)
  obtain kc c where k: "k = (kc, c)" by (cases k)
  let ?n = "unat (keysInStdRpt s)"
  let ?s1 = "s\<lparr>stdRpt_keyCodes := (stdRpt_keyCodes s)[?n := c],
             keysInStdRpt := keysInStdRpt s + 1, stdRptChanged := True\<rparr>"
  have room: "?n < unat (maxKeysInStdRpt cfg)" using Cons.prems(3) by simp
  have absent: "c \<notin> set (stdRpt_keys s)" using Cons.prems(2) k by auto
  have d: "kbapp_stdRptProcEvtKeyDown cfg KEY_DOWN kc c s = Some ?s1"
    using room Cons.prems(4) absent by (intro kbapp_stdRptProcEvtKeyDown_room) auto
  have "unat (maxKeysInStdRpt cfg) < 256"
    using unsigned_less [of "maxKeysInStdRpt cfg", where 'a = nat] by simp
  then have n1: "unat (keysInStdRpt ?s1) = Suc ?n"
    using room by (simp add: unat_word_ariths)
  have k1: "stdRpt_keys ?s1 = stdRpt_keys s @ [c]"
    using room Cons.prems(4) n1 by (simp add: stdRpt_keys_def take_Suc_conv_app_nth)
  have "\<exists>s'. kbapp_stdRptProcEvtKey_presses cfg ks ?s1 = Some s'
         \<and> stdRpt_keys s' = stdRpt_keys ?s1 @ map snd ks
         \<and> unat (keysInStdRpt s') = unat (keysInStdRpt ?s1) + length ks
         \<and> length (stdRpt_keyCodes s') = length (stdRpt_keyCodes ?s1)
         \<and> effects s' = effects ?s1 \<and> recoveryInProgress s' = recoveryInProgress ?s1
         \<and> rolloverRpt_modifierKeys s' = rolloverRpt_modifierKeys ?s1
         \<and> rolloverRpt_keyCodes s' = rolloverRpt_keyCodes ?s1"
  proof (rule Cons.IH)
    show "distinct (map snd ks)" using Cons.prems(1) by simp
    show "set (map snd ks) \<inter> set (stdRpt_keys ?s1) = {}"
      using Cons.prems(1,2) k by (auto simp: k1)
    show "unat (keysInStdRpt ?s1) + length ks \<le> unat (maxKeysInStdRpt cfg)"
      using Cons.prems(3) by (simp only: n1) simp
    show "unat (maxKeysInStdRpt cfg) \<le> length (stdRpt_keyCodes ?s1)"
      using Cons.prems(4) by simp
  qed
  then obtain s' where s': "kbapp_stdRptProcEvtKey_presses cfg ks ?s1 = Some s'"
         "stdRpt_keys s' = stdRpt_keys ?s1 @ map snd ks"
         "unat (keysInStdRpt s') = unat (keysInStdRpt ?s1) + length ks"
         "length (stdRpt_keyCodes s') = length (stdRpt_keyCodes ?s1)"
         "effects s' = effects ?s1" "recoveryInProgress s' = recoveryInProgress ?s1"
         "rolloverRpt_modifierKeys s' = rolloverRpt_modifierKeys ?s1"
         "rolloverRpt_keyCodes s' = rolloverRpt_keyCodes ?s1"
    by blast
  have "kbapp_stdRptProcEvtKey_presses cfg (k # ks) s = Some s'"
    using d s'(1) by (simp add: k kbapp_stdRptProcEvtKey_def)
  moreover have "stdRpt_keys s' = stdRpt_keys s @ map snd (k # ks)"
    using s'(2) k1 k by simp
  moreover have "unat (keysInStdRpt s') = ?n + length (k # ks)"
    using s'(3) by (simp only: n1) simp
  moreover have "length (stdRpt_keyCodes s') = length (stdRpt_keyCodes s)" using s'(4) by simp
  moreover have "effects s' = effects s" "recoveryInProgress s' = recoveryInProgress s"
    "rolloverRpt_modifierKeys s' = rolloverRpt_modifierKeys s"
    "rolloverRpt_keyCodes s' = rolloverRpt_keyCodes s" using s'(5-8) by simp_all
  ultimately show ?case by blast
qed

lemma kbapp_stdRptProcOverflow_eq:
  "kbapp_stdRptProcOverflow cfg s =
     (kbapp_stdErrResp cfg s)\<lparr>eventQueue := [],
        effects := effects (kbapp_stdErrResp cfg s) @ [KeyscanReset]\<rparr>"
  by (simp add: kbapp_stdRptProcOverflow_def kbapp_stdErrRespWithFwHwReset_def Let_def)

lemma kbapp_stdRptProcEvtKey_presses_overflow:
  assumes "length ks = unat (maxKeysInStdRpt cfg)" "distinct (map snd (ks @ [(kc, c)]))"
    "keysInStdRpt s = 0" "unat (maxKeysInStdRpt cfg) \<le> length (stdRpt_keyCodes s)"
  shows "\<exists>sK. kbapp_stdRptProcEvtKey_presses cfg ks s = Some sK
       \<and> effects sK = effects s \<and> recoveryInProgress sK = recoveryInProgress s
       \<and> keysInStdRpt sK = maxKeysInStdRpt cfg
       \<and> kbapp_stdRptProcEvtKey_presses cfg (ks @ [(kc, c)]) s
            = Some (kbapp_stdRptProcOverflow cfg sK)
       \<and> effects (kbapp_stdRptProcOverflow cfg sK)
            = effects s
              @ (if recoveryInProgress s = 0
                 then [SendRolloverRpt (rolloverRpt_modifierKeys s) (rolloverRpt_keyCodes s)]
                 else [])
              @ [KeyscanReset]"
proof -
  have e: "stdRpt_keys s = []" using assms(3) by (simp add: stdRpt_keys_def)
  have "\<exists>s'. kbapp_stdRptProcEvtKey_presses cfg ks s = Some s'
         \<and> stdRpt_keys s' = stdRpt_keys s @ map snd ks
         \<and> unat (keysInStdRpt s') = unat (keysInStdRpt s) + length ks
         \<and> length (stdRpt_keyCodes s') = length (stdRpt_keyCodes s)
         \<and> effects s' = effects s \<and> recoveryInProgress s' = recoveryInProgress s
         \<and> rolloverRpt_modifierKeys s' = rolloverRpt_modifierKeys s
         \<and> rolloverRpt_keyCodes s' = rolloverRpt_keyCodes s"
    using assms e by (intro kbapp_stdRptProcEvtKey_presses_room) auto
  then obtain sK where sK: "kbapp_stdRptProcEvtKey_presses cfg ks s = Some sK"
         "stdRpt_keys sK = stdRpt_keys s @ map snd ks"
         "unat (keysInStdRpt sK) = unat (keysInStdRpt s) + length ks"
         "length (stdRpt_keyCodes sK) = length (stdRpt_keyCodes s)"
         "effects sK = effects s" "recoveryInProgress sK = recoveryInProgress s"
         "rolloverRpt_modifierKeys sK = rolloverRpt_modifierKeys s"
         "rolloverRpt_keyCodes sK = rolloverRpt_keyCodes s"
    by blast
  have n: "unat (keysInStdRpt sK) = unat (maxKeysInStdRpt cfg)" using sK(3) assms(1,3) by simp
  then have n': "keysInStdRpt sK = maxKeysInStdRpt cfg" by (simp add: word_unat_eq_iff)
  have absent: "c \<notin> set (stdRpt_keys sK)" using sK(2) e assms(2) by auto
  have "kbapp_stdRptProcEvtKeyDown cfg KEY_DOWN kc c sK = Some (kbapp_stdRptProcOverflow cfg sK)"
    using n absent sK(4) assms(4) by (intro kbapp_stdRptProcEvtKeyDown_full) auto
  then have last: "kbapp_stdRptProcEvtKey_presses cfg (ks @ [(kc, c)]) s
            = Some (kbapp_stdRptProcOverflow cfg sK)"
    using sK(1) by (simp add: kbapp_stdRptProcEvtKey_presses_append kbapp_stdRptProcEvtKey_def)
  have eff: "effects (kbapp_stdRptProcOverflow cfg sK)
            = effects s
              @ (if recoveryInProgress s = 0
                 then [SendRolloverRpt (rolloverRpt_modifierKeys s) (rolloverRpt_keyCodes s)]
                 else [])
              @ [KeyscanReset]"
    using sK(5-8) by (simp add: kbapp_stdRptProcOverflow_eq kbapp_stdErrResp_effects)
  show ?thesis using sK(1,5,6) n' last eff by blast
qed



text \<open>
  C3. \<^verbatim>\<open>kbapp_stdErrResp\<close> sends the rollover report exactly when no recovery is in
  progress and then sets \<open>recoveryInProgress\<close> to the configured recovery poll count;
  an error response that arrives at any poll of the countdown before the count reaches
  zero sends nothing. Pressing as many distinct standard keys as the report holds and one
  more, on an empty report, ends in \<^verbatim>\<open>kbapp_stdRptProcOverflow\<close>, which runs this error
  response, flushes the queue and resets the keyscan hardware.
\<close>

theorem kbapp_stdErrResp_rollover_once_per_window:
  "(recoveryInProgress s = 0 \<longrightarrow>
      effects (kbapp_stdErrResp cfg s)
        = effects s @ [SendRolloverRpt (rolloverRpt_modifierKeys s) (rolloverRpt_keyCodes s)])
   \<and> (recoveryInProgress s \<noteq> 0 \<longrightarrow> effects (kbapp_stdErrResp cfg s) = effects s)
   \<and> recoveryInProgress (kbapp_stdErrResp cfg s) = recoveryPollCount cfg
   \<and> (\<forall>k. k < unat (recoveryPollCount cfg) \<longrightarrow>
         effects (kbapp_stdErrResp cfg
                    ((kbapp_generateAndTxReports_recovery ^^ k) (kbapp_stdErrResp cfg s)))
           = effects (kbapp_stdErrResp cfg s))
   \<and> (length ks = unat (maxKeysInStdRpt cfg) \<and> distinct (map snd (ks @ [(keyCode, c)]))
        \<and> keysInStdRpt s = 0 \<and> unat (maxKeysInStdRpt cfg) \<le> length (stdRpt_keyCodes s) \<longrightarrow>
        (\<exists>sK. kbapp_stdRptProcEvtKey_presses cfg ks s = Some sK
           \<and> effects sK = effects s \<and> recoveryInProgress sK = recoveryInProgress s
           \<and> keysInStdRpt sK = maxKeysInStdRpt cfg
           \<and> kbapp_stdRptProcEvtKey_presses cfg (ks @ [(keyCode, c)]) s
                = Some (kbapp_stdRptProcOverflow cfg sK)
           \<and> kbapp_stdRptProcOverflow cfg sK
                = (kbapp_stdErrResp cfg sK)\<lparr>eventQueue := [],
                     effects := effects (kbapp_stdErrResp cfg sK) @ [KeyscanReset]\<rparr>
           \<and> effects (kbapp_stdRptProcOverflow cfg sK)
                = effects s
                  @ (if recoveryInProgress s = 0
                     then [SendRolloverRpt (rolloverRpt_modifierKeys s) (rolloverRpt_keyCodes s)]
                     else [])
                  @ [KeyscanReset]))"
proof (intro conjI allI impI)
  show "effects (kbapp_stdErrResp cfg s)
        = effects s @ [SendRolloverRpt (rolloverRpt_modifierKeys s) (rolloverRpt_keyCodes s)]"
    if "recoveryInProgress s = 0"
    using that by (simp add: kbapp_stdErrResp_effects)
  show "effects (kbapp_stdErrResp cfg s) = effects s" if "recoveryInProgress s \<noteq> 0"
    using that by (simp add: kbapp_stdErrResp_effects)
  show "recoveryInProgress (kbapp_stdErrResp cfg s) = recoveryPollCount cfg"
    by (rule kbapp_stdErrResp_fields(1))
next
  fix k assume "k < unat (recoveryPollCount cfg)"
  then have "k < unat (recoveryInProgress (kbapp_stdErrResp cfg s))"
    by (simp add: kbapp_stdErrResp_fields(1))
  from kbapp_generateAndTxReports_recovery_before_end [OF this]
  show "effects (kbapp_stdErrResp cfg
                    ((kbapp_generateAndTxReports_recovery ^^ k) (kbapp_stdErrResp cfg s)))
           = effects (kbapp_stdErrResp cfg s)"
    by (simp add: kbapp_stdErrResp_effects)
next
  assume a: "length ks = unat (maxKeysInStdRpt cfg) \<and> distinct (map snd (ks @ [(keyCode, c)]))
        \<and> keysInStdRpt s = 0 \<and> unat (maxKeysInStdRpt cfg) \<le> length (stdRpt_keyCodes s)"
  then have "\<exists>sK. kbapp_stdRptProcEvtKey_presses cfg ks s = Some sK
       \<and> effects sK = effects s \<and> recoveryInProgress sK = recoveryInProgress s
       \<and> keysInStdRpt sK = maxKeysInStdRpt cfg
       \<and> kbapp_stdRptProcEvtKey_presses cfg (ks @ [(keyCode, c)]) s
            = Some (kbapp_stdRptProcOverflow cfg sK)
       \<and> effects (kbapp_stdRptProcOverflow cfg sK)
            = effects s
              @ (if recoveryInProgress s = 0
                 then [SendRolloverRpt (rolloverRpt_modifierKeys s) (rolloverRpt_keyCodes s)]
                 else [])
              @ [KeyscanReset]"
    by (intro kbapp_stdRptProcEvtKey_presses_overflow) auto
  then obtain sK where sK: "kbapp_stdRptProcEvtKey_presses cfg ks s = Some sK"
       "effects sK = effects s" "recoveryInProgress sK = recoveryInProgress s"
       "keysInStdRpt sK = maxKeysInStdRpt cfg"
       "kbapp_stdRptProcEvtKey_presses cfg (ks @ [(keyCode, c)]) s
            = Some (kbapp_stdRptProcOverflow cfg sK)"
       "effects (kbapp_stdRptProcOverflow cfg sK)
            = effects s
              @ (if recoveryInProgress s = 0
                 then [SendRolloverRpt (rolloverRpt_modifierKeys s) (rolloverRpt_keyCodes s)]
                 else [])
              @ [KeyscanReset]"
    by (elim exE conjE)
  show "\<exists>sK. kbapp_stdRptProcEvtKey_presses cfg ks s = Some sK
           \<and> effects sK = effects s \<and> recoveryInProgress sK = recoveryInProgress s
           \<and> keysInStdRpt sK = maxKeysInStdRpt cfg
           \<and> kbapp_stdRptProcEvtKey_presses cfg (ks @ [(keyCode, c)]) s
                = Some (kbapp_stdRptProcOverflow cfg sK)
           \<and> kbapp_stdRptProcOverflow cfg sK
                = (kbapp_stdErrResp cfg sK)\<lparr>eventQueue := [],
                     effects := effects (kbapp_stdErrResp cfg sK) @ [KeyscanReset]\<rparr>
           \<and> effects (kbapp_stdRptProcOverflow cfg sK)
                = effects s
                  @ (if recoveryInProgress s = 0
                     then [SendRolloverRpt (rolloverRpt_modifierKeys s) (rolloverRpt_keyCodes s)]
                     else [])
                  @ [KeyscanReset]"
    by (intro exI [of _ sK] conjI sK kbapp_stdRptProcOverflow_eq)
qed

theorem kbapp_stdErrResp_rollover_once_per_window_witness:
  "recoveryInProgress kbAppState_sample = 0
   \<and> effects (kbapp_stdErrResp kbAppConfig_sample kbAppState_sample)
       = effects kbAppState_sample
         @ [SendRolloverRpt (rolloverRpt_modifierKeys kbAppState_sample)
              (rolloverRpt_keyCodes kbAppState_sample)]
   \<and> (2 :: nat) < unat (recoveryPollCount kbAppConfig_sample)
   \<and> effects (kbapp_stdErrResp kbAppConfig_sample
                ((kbapp_generateAndTxReports_recovery ^^ 2)
                   (kbapp_stdErrResp kbAppConfig_sample kbAppState_sample)))
       = effects (kbapp_stdErrResp kbAppConfig_sample kbAppState_sample)
   \<and> length ([(0, 4), (1, 5), (2, 6), (3, 7), (4, 8), (5, 9)] :: (uint8_t \<times> uint8_t) list)
       = unat (maxKeysInStdRpt kbAppConfig_sample)
   \<and> distinct (map snd ([(0, 4), (1, 5), (2, 6), (3, 7), (4, 8), (5, 9)] @ [(6 :: uint8_t, 10 :: uint8_t)]))
   \<and> keysInStdRpt kbAppState_sample = 0
   \<and> unat (maxKeysInStdRpt kbAppConfig_sample) \<le> length (stdRpt_keyCodes kbAppState_sample)
   \<and> (\<exists>sK. kbapp_stdRptProcEvtKey_presses kbAppConfig_sample
               ([(0, 4), (1, 5), (2, 6), (3, 7), (4, 8), (5, 9)] @ [(6, 10)]) kbAppState_sample
             = Some (kbapp_stdRptProcOverflow kbAppConfig_sample sK)
           \<and> effects (kbapp_stdRptProcOverflow kbAppConfig_sample sK)
             = effects kbAppState_sample
               @ (if recoveryInProgress kbAppState_sample = 0
                  then [SendRolloverRpt (rolloverRpt_modifierKeys kbAppState_sample)
                          (rolloverRpt_keyCodes kbAppState_sample)]
                  else [])
               @ [KeyscanReset])"
proof -
  let ?ks = "[(0, 4), (1, 5), (2, 6), (3, 7), (4, 8), (5, 9)] :: (uint8_t \<times> uint8_t) list"
  have h1: "recoveryInProgress kbAppState_sample = 0" by (simp add: sample_defs)
  have h2: "(2 :: nat) < unat (recoveryPollCount kbAppConfig_sample)" by (simp add: sample_defs)
  have h3: "length ?ks = unat (maxKeysInStdRpt kbAppConfig_sample)" by (simp add: sample_defs)
  have h4: "distinct (map snd (?ks @ [(6 :: uint8_t, 10 :: uint8_t)]))" by simp
  have h5: "keysInStdRpt kbAppState_sample = 0" by (simp add: sample_defs)
  have h6: "unat (maxKeysInStdRpt kbAppConfig_sample) \<le> length (stdRpt_keyCodes kbAppState_sample)"
    by (simp add: sample_defs)
  note t = kbapp_stdErrResp_rollover_once_per_window
         [of kbAppState_sample kbAppConfig_sample ?ks 6 10]
  note a = t [THEN conjunct1, THEN mp, OF h1]
  note d = t [THEN conjunct2, THEN conjunct2, THEN conjunct2, THEN conjunct1, THEN spec,
              THEN mp, OF h2]
  note e = t [THEN conjunct2, THEN conjunct2, THEN conjunct2, THEN conjunct2, THEN mp,
              OF conjI [OF h3 conjI [OF h4 conjI [OF h5 h6]]]]
  from e obtain sK where
    sK: "kbapp_stdRptProcEvtKey_presses kbAppConfig_sample (?ks @ [(6, 10)]) kbAppState_sample
             = Some (kbapp_stdRptProcOverflow kbAppConfig_sample sK)"
        "effects (kbapp_stdRptProcOverflow kbAppConfig_sample sK)
             = effects kbAppState_sample
               @ (if recoveryInProgress kbAppState_sample = 0
                  then [SendRolloverRpt (rolloverRpt_modifierKeys kbAppState_sample)
                          (rolloverRpt_keyCodes kbAppState_sample)]
                  else [])
               @ [KeyscanReset]"
    by (elim exE conjE)
  show ?thesis
    by (intro conjI exI [of _ sK] h1 a h2 d h3 h4 h5 h6 sK)
qed


section \<open>Pin and pass code entry\<close>

lemmas usb_defs = USB_USAGE_0_def USB_USAGE_1_def USB_USAGE_9_def USB_USAGE_KP_0_def
  USB_USAGE_KP_1_def USB_USAGE_KP_9_def USB_USAGE_ENTER_def USB_USAGE_KP_ENTER_def
  USB_USAGE_ESCAPE_def USB_USAGE_BACKSPACE_def USB_USAGE_DELETE_def

lemma kbapp_pinEntryEvent_fields:
  "pinCodeBuffer (kbapp_pinEntryEvent cfg e s) = pinCodeBuffer s"
  "pinCodeSize (kbapp_pinEntryEvent cfg e s) = pinCodeSize s"
  "maxPinCodeSize (kbapp_pinEntryEvent cfg e s) = maxPinCodeSize s"
  "pinCodeEntryInProgress (kbapp_pinEntryEvent cfg e s) = pinCodeEntryInProgress s"
  "enterKeyPressed (kbapp_pinEntryEvent cfg e s) = enterKeyPressed s"
  by (simp_all add: kbapp_pinEntryEvent_def kbapp_pinRptUpdate_def Let_def split: PinEntryMode.splits)

lemma kbapp_flushUserInput_fields:
  "eventQueue (kbapp_flushUserInput cfg s) = []"
  "pinCodeEntryInProgress (kbapp_flushUserInput cfg s) = pinCodeEntryInProgress s"
  "recoveryInProgress (kbapp_flushUserInput cfg s) = 0"
  "enterKeyPressed (kbapp_flushUserInput cfg s) = enterKeyPressed s"
  by (simp_all add: kbapp_flushUserInput_def clear_defs)













text \<open>
  The latch keeps to its values: the two functions that start an entry clear it, and
  \<^verbatim>\<open>kbapp_handlePinEntry\<close> keeps it valid.
\<close>

lemma kbapp_handlePinEntry_key_latch:
  assumes "kbapp_handlePinEntry_key cfg kc ud s = Some (b, s')" "pin_latch_valid s"
  shows "pin_latch_valid s'"
  using assms
  by (auto simp: kbapp_handlePinEntry_key_def kbapp_pinEntryEvent_fields kbapp_flushUserInput_fields
        pin_latch_valid_def Let_def
      split: if_splits Option.bind_splits prod.splits)

lemma kbapp_handlePinEntry_latch:
  "kbapp_handlePinEntry cfg s = Some s' \<Longrightarrow> pin_latch_valid s \<Longrightarrow> pin_latch_valid s'"
proof (induction cfg s rule: kbapp_handlePinEntry.induct)
  case (1 cfg s)
  show ?case
  proof (cases "eventQueue s")
    case Nil
    with "1.prems" show ?thesis by (subst (asm) kbapp_handlePinEntry.simps) simp
  next
    case (Cons e rest)
    show ?thesis
    proof (cases e)
      case (HID_EVENT_KEY_STATE_CHANGE kc ud)
      from "1.prems"(1) Cons HID_EVENT_KEY_STATE_CHANGE
      obtain b s1 where k: "kbapp_handlePinEntry_key cfg kc ud s = Some (b, s1)"
        by (subst (asm) kbapp_handlePinEntry.simps) (auto split: option.splits)
      note v = kbapp_handlePinEntry_key_latch [OF k "1.prems"(2)]
      show ?thesis
      proof (cases b)
        case True
        with "1.prems"(1) Cons HID_EVENT_KEY_STATE_CHANGE k have "s' = s1"
          by (subst (asm) kbapp_handlePinEntry.simps) simp
        with v show ?thesis by simp
      next
        case False
        with "1.prems"(1) Cons HID_EVENT_KEY_STATE_CHANGE k
        have r: "kbapp_handlePinEntry cfg (s1\<lparr>eventQueue := tl (eventQueue s1)\<rparr>) = Some s'"
          by (subst (asm) kbapp_handlePinEntry.simps) simp
        from v have "pin_latch_valid (s1\<lparr>eventQueue := tl (eventQueue s1)\<rparr>)"
          by (simp add: pin_latch_valid_def)
        with "1.IH"(1) [OF Cons HID_EVENT_KEY_STATE_CHANGE _ _ _ r] k False show ?thesis by simp
      qed
    next
      case (HID_EVENT_MOTION_AXIS_0 m)
      with "1.prems"(1) Cons
      have r: "kbapp_handlePinEntry cfg (s\<lparr>eventQueue := tl (eventQueue s)\<rparr>) = Some s'"
        by (subst (asm) kbapp_handlePinEntry.simps) simp
      from "1.prems"(2) have "pin_latch_valid (s\<lparr>eventQueue := tl (eventQueue s)\<rparr>)"
        by (simp add: pin_latch_valid_def)
      with "1.IH"(2) [OF Cons HID_EVENT_MOTION_AXIS_0 r] show ?thesis by simp
    next
      case HID_EVENT_EVENT_FIFO_OVERFLOW
      with "1.prems"(1) Cons
      have r: "kbapp_handlePinEntry cfg (s\<lparr>eventQueue := tl (eventQueue s)\<rparr>) = Some s'"
        by (subst (asm) kbapp_handlePinEntry.simps) simp
      from "1.prems"(2) have "pin_latch_valid (s\<lparr>eventQueue := tl (eventQueue s)\<rparr>)"
        by (simp add: pin_latch_valid_def)
      with "1.IH"(3) [OF Cons HID_EVENT_EVENT_FIFO_OVERFLOW r] show ?thesis by simp
    next
      case (HID_EVENT_USER_DEFINED x)
      with "1.prems"(1) Cons
      have r: "kbapp_handlePinEntry cfg (s\<lparr>eventQueue := tl (eventQueue s)\<rparr>) = Some s'"
        by (subst (asm) kbapp_handlePinEntry.simps) simp
      from "1.prems"(2) have "pin_latch_valid (s\<lparr>eventQueue := tl (eventQueue s)\<rparr>)"
        by (simp add: pin_latch_valid_def)
      with "1.IH"(4) [OF Cons HID_EVENT_USER_DEFINED r] show ?thesis by simp
    qed
  qed
qed

lemma kbapp_enterPinCodeEntryMode_latch:
  "pinCodeEntryInProgress s = PIN_ENTRY_MODE_NONE \<Longrightarrow>
   kbapp_enterPinCodeEntryMode cfg n s = Some s' \<Longrightarrow> pin_latch_valid s'"
  by (auto simp: kbapp_enterPinCodeEntryMode_def Let_def pin_latch_valid_def
      kbapp_flushUserInput_fields split: if_splits)

lemma kbapp_enterPassCodeEntryMode_latch:
  "pinCodeEntryInProgress s = PIN_ENTRY_MODE_NONE \<Longrightarrow>
   pin_latch_valid (kbapp_enterPassCodeEntryMode cfg n s)"
  by (simp add: kbapp_enterPassCodeEntryMode_def Let_def pin_latch_valid_def
      kbapp_flushUserInput_fields kbapp_pinEntryEvent_fields)






text \<open>
  C10. \<^verbatim>\<open>kbapp_handlePinEntry\<close> reads \<^verbatim>\<open>kbKeyConfig[keyCode]\<close> without comparing
  \<open>keyCode\<close> with \<^verbatim>\<open>kbKeyConfig_size\<close>. With a table of \<^verbatim>\<open>kbKeyConfig_size\<close>
  entries, a key event at the head of the queue whose scan code is at least that size makes
  the read go out of bounds, as soon as the event is a key-down with no enter key latched,
  or an enter key is latched; \<^verbatim>\<open>kbapp_procEvtKey\<close> on the same queue makes no such
  read. The queue that \<^verbatim>\<open>kbapp_pollActivityKey\<close> builds from the press of an enter key
  and the end-of-scan-cycle marker of its cycle is such a queue.
\<close>

theorem kbapp_handlePinEntry_unchecked_lookup:
  "(length (kbKeyConfig cfg) = unat (kbKeyConfig_size cfg) \<and> kbKeyConfig_size cfg \<le> keyCode
      \<and> eventQueue s = HID_EVENT_KEY_STATE_CHANGE keyCode upDownFlag # rest
      \<and> ((upDownFlag = KEY_DOWN \<and> enterKeyPressed s = 0) \<or> enterKeyPressed s \<noteq> 0) \<longrightarrow>
      kbKeyConfig_at cfg keyCode = None \<and> kbapp_handlePinEntry cfg s = None
      \<and> (\<not> keyCode < KB_MAX_KEYS cfg \<longrightarrow> kbapp_procEvtKey cfg s \<noteq> None))
   \<and> (length (kbKeyConfig cfg) = unat (kbKeyConfig_size cfg)
      \<and> kbKeyConfig_size cfg \<le> END_OF_SCAN_CYCLE cfg
      \<and> kbKeyConfig_at cfg k = Some (KEY_TYPE_STD, USB_USAGE_ENTER) \<and> enterKeyPressed s = 0
      \<and> eventQueue s = [HID_EVENT_KEY_STATE_CHANGE k KEY_DOWN,
                          HID_EVENT_KEY_STATE_CHANGE (END_OF_SCAN_CYCLE cfg) ud] \<longrightarrow>
      kbapp_handlePinEntry cfg s = None)
   \<and> (k \<noteq> connectButtonScanIndex cfg \<and> k \<noteq> END_OF_SCAN_CYCLE cfg
      \<and> END_OF_SCAN_CYCLE cfg \<noteq> connectButtonScanIndex cfg \<longrightarrow>
      eventQueue (kbapp_pollActivityKey cfg add_event [(k, KEY_DOWN), (END_OF_SCAN_CYCLE cfg, ud)] s)
        = add_event (HID_EVENT_KEY_STATE_CHANGE (END_OF_SCAN_CYCLE cfg) ud)
            (add_event (HID_EVENT_KEY_STATE_CHANGE k KEY_DOWN) (eventQueue s)))"
proof (intro conjI impI)
  assume a: "length (kbKeyConfig cfg) = unat (kbKeyConfig_size cfg) \<and> kbKeyConfig_size cfg \<le> keyCode
      \<and> eventQueue s = HID_EVENT_KEY_STATE_CHANGE keyCode upDownFlag # rest
      \<and> ((upDownFlag = KEY_DOWN \<and> enterKeyPressed s = 0) \<or> enterKeyPressed s \<noteq> 0)"
  then show l: "kbKeyConfig_at cfg keyCode = None"
    by (simp add: kbKeyConfig_at_def word_le_nat_alt)
  have "kbapp_handlePinEntry_key cfg keyCode upDownFlag s = None"
    using a l by (auto simp: kbapp_handlePinEntry_key_def)
  then show "kbapp_handlePinEntry cfg s = None"
    using a by (subst kbapp_handlePinEntry.simps) simp
  assume "\<not> keyCode < KB_MAX_KEYS cfg"
  then show "kbapp_procEvtKey cfg s \<noteq> None"
    using a by (subst kbapp_procEvtKey.simps) auto
next
  assume a: "length (kbKeyConfig cfg) = unat (kbKeyConfig_size cfg)
      \<and> kbKeyConfig_size cfg \<le> END_OF_SCAN_CYCLE cfg
      \<and> kbKeyConfig_at cfg k = Some (KEY_TYPE_STD, USB_USAGE_ENTER) \<and> enterKeyPressed s = 0
      \<and> eventQueue s = [HID_EVENT_KEY_STATE_CHANGE k KEY_DOWN,
                          HID_EVENT_KEY_STATE_CHANGE (END_OF_SCAN_CYCLE cfg) ud]"
  let ?s1 = "s\<lparr>enterKeyPressed := USB_USAGE_ENTER\<rparr>"
  have k1: "kbapp_handlePinEntry_key cfg k KEY_DOWN s = Some (False, ?s1)"
    using a by (simp add: kbapp_handlePinEntry_key_def usb_defs)
  have l: "kbKeyConfig_at cfg (END_OF_SCAN_CYCLE cfg) = None"
    using a by (simp add: kbKeyConfig_at_def word_le_nat_alt)
  have k2: "kbapp_handlePinEntry_key cfg (END_OF_SCAN_CYCLE cfg) ud
              (?s1\<lparr>eventQueue := tl (eventQueue ?s1)\<rparr>) = None"
    using l by (simp add: kbapp_handlePinEntry_key_def usb_defs)
  have "kbapp_handlePinEntry cfg s
      = kbapp_handlePinEntry cfg (?s1\<lparr>eventQueue := tl (eventQueue ?s1)\<rparr>)"
    using a k1 by (subst kbapp_handlePinEntry.simps) simp
  also have "\<dots> = None"
    using a k2 by (subst kbapp_handlePinEntry.simps) simp
  finally show "kbapp_handlePinEntry cfg s = None" .
next
  assume "k \<noteq> connectButtonScanIndex cfg \<and> k \<noteq> END_OF_SCAN_CYCLE cfg
      \<and> END_OF_SCAN_CYCLE cfg \<noteq> connectButtonScanIndex cfg"
  then show "eventQueue (kbapp_pollActivityKey cfg add_event
                 [(k, KEY_DOWN), (END_OF_SCAN_CYCLE cfg, ud)] s)
        = add_event (HID_EVENT_KEY_STATE_CHANGE (END_OF_SCAN_CYCLE cfg) ud)
            (add_event (HID_EVENT_KEY_STATE_CHANGE k KEY_DOWN) (eventQueue s))"
    by (simp add: kbapp_pollActivityKey_def)
qed

theorem kbapp_handlePinEntry_unchecked_lookup_witness:
  "length (kbKeyConfig kbAppConfig_sample) = unat (kbKeyConfig_size kbAppConfig_sample)
   \<and> kbKeyConfig_size kbAppConfig_sample \<le> END_OF_SCAN_CYCLE kbAppConfig_sample
   \<and> kbKeyConfig_at kbAppConfig_sample 2 = Some (KEY_TYPE_STD, USB_USAGE_ENTER)
   \<and> enterKeyPressed (kbapp_enterPassCodeEntryMode kbAppConfig_sample 16 kbAppState_sample) = 0
   \<and> pinCodeEntryInProgress (kbapp_enterPassCodeEntryMode kbAppConfig_sample 16 kbAppState_sample)
       = PASS_KEY_ENTRY_IN_PROGRESS
   \<and> kbapp_handlePinEntry kbAppConfig_sample
        (kbapp_pollActivityKey kbAppConfig_sample (\<lambda>e q. q @ [e])
           [(2, KEY_DOWN), (END_OF_SCAN_CYCLE kbAppConfig_sample, 0)]
           (kbapp_enterPassCodeEntryMode kbAppConfig_sample 16 kbAppState_sample)) = None"
proof -
  let ?cfg = kbAppConfig_sample
  let ?pin = "kbapp_enterPassCodeEntryMode ?cfg 16 kbAppState_sample"
  let ?polled = "kbapp_pollActivityKey ?cfg (\<lambda>e q. q @ [e])
           [(2, KEY_DOWN), (END_OF_SCAN_CYCLE ?cfg, 0)] ?pin"
  have h1: "length (kbKeyConfig ?cfg) = unat (kbKeyConfig_size ?cfg)"
    by (simp add: kbAppConfig_sample_def)
  have h2: "kbKeyConfig_size ?cfg \<le> END_OF_SCAN_CYCLE ?cfg" by (simp add: kbAppConfig_sample_def)
  have h3: "kbKeyConfig_at ?cfg 2 = Some (KEY_TYPE_STD, USB_USAGE_ENTER)"
    by (simp add: kbKeyConfig_at_def kbAppConfig_sample_def usb_defs)
  have f: "enterKeyPressed ?pin = 0" "eventQueue ?pin = []"
    "pinCodeEntryInProgress ?pin = PASS_KEY_ENTRY_IN_PROGRESS"
    by (simp_all add: kbapp_enterPassCodeEntryMode_def Let_def sample_defs
          kbapp_pinEntryEvent_fields kbapp_pinEntryEvent_queue kbapp_flushUserInput_fields)
  have g: "connectButtonScanIndex ?cfg = 0xFE" "END_OF_SCAN_CYCLE ?cfg = 0xFF"
    by (simp_all add: kbAppConfig_sample_def)
  have p: "enterKeyPressed ?polled = 0"
      "eventQueue ?polled = [HID_EVENT_KEY_STATE_CHANGE 2 KEY_DOWN,
                          HID_EVENT_KEY_STATE_CHANGE (END_OF_SCAN_CYCLE ?cfg) 0]"
    using f g by (simp_all add: kbapp_pollActivityKey_def)
  note t = kbapp_handlePinEntry_unchecked_lookup [of ?cfg _ ?polled _ _ 2 0, THEN conjunct2, THEN conjunct1, THEN mp,
                OF conjI [OF h1 conjI [OF h2 conjI [OF h3 conjI [OF p(1) p(2)]]]]]
  show ?thesis by (intro conjI h1 h2 h3 f(1) f(3) t)
qed



section \<open>The bit mapped report\<close>


text \<open>
  Every bit that is set in the array stands at a position below \<open>n\<close>, the position of
  bit \<open>col\<close> of byte \<open>row\<close> being \<open>8 * row + col\<close>.
\<close>

definition bitRpt_inRange :: "nat \<Rightarrow> uint8_t list \<Rightarrow> bool" where
  "bitRpt_inRange n keys \<longleftrightarrow>
     (\<forall>row < length keys. \<forall>col. bit (keys ! row) col \<longrightarrow> 8 * row + col < n)"

lemma bitOffsetToByteValue_nth:
  assumes "c < 8"
  shows "bitOffsetToByteValue ! c = push_bit c 1"
proof -
  from assms have "c \<in> {0, 1, 2, 3, 4, 5, 6, 7}" by auto
  then show ?thesis by (auto simp: bitOffsetToByteValue_def)
qed

lemma rowCol_col: "unat (rowCol AND 0x07 :: uint8_t) = unat rowCol mod 8"
proof -
  have "rowCol AND 0x07 = take_bit 3 rowCol"
    by (simp add: take_bit_eq_mask mask_eq_exp_minus_1)
  then show ?thesis by (simp add: take_bit_eq_mod unat_mod_distrib)
qed

lemma rowCol_row: "unat (drop_bit 3 (rowCol :: uint8_t)) = unat rowCol div 8"
  by (simp add: drop_bit_eq_div unat_div_distrib)

lemma bitsSet_card: "bitsSet w = card {i. bit w i}"
proof -
  have "{i. bit w i} \<inter> set [0..<8] = {i. bit w i}"
    using bit_imp_le_length [of w] by auto
  then show ?thesis
    unfolding bitsSet_def using distinct_length_filter [of "[0..<8]" "bit w"] by simp
qed

lemma bitsSet_finite: "finite {i. bit (w :: uint8_t) i}"
proof -
  have "{i. bit w i} \<subseteq> {..<8}" using bit_imp_le_length [of w] by auto
  then show ?thesis using finite_subset by blast
qed

lemma bitsSet_zero: "bitsSet 0 = 0"
  by (simp add: bitsSet_card)

lemma bitsSet_set:
  assumes "c < 8" "\<not> bit w c"
  shows "bitsSet (w OR push_bit c 1) = bitsSet w + 1"
proof -
  have "{i. bit (w OR push_bit c 1) i} = insert c {i. bit w i}"
    using assms by (auto simp: bit_simps)
  then show ?thesis
    using assms bitsSet_finite [of w] by (simp add: bitsSet_card)
qed

lemma bitsSet_unset:
  assumes "bit w c"
  shows "bitsSet (w AND NOT (push_bit c 1)) + 1 = bitsSet w"
proof -
  have c: "c < 8" using assms bit_imp_le_length [of w c] by simp
  have "{i. bit (w AND NOT (push_bit c 1)) i} = {i. bit w i} - {c}"
    using c bit_imp_le_length [of w] by (auto simp: bit_simps)
  moreover have "card {i. bit w i} > 0"
    using assms bitsSet_finite [of w] by (auto simp: card_gt_0_iff)
  ultimately show ?thesis
    using assms bitsSet_finite [of w] by (simp add: bitsSet_card)
qed

lemma bitsSet_le:
  assumes "\<forall>i. bit w i \<longrightarrow> i < n"
  shows "bitsSet w \<le> n"
proof -
  have "{i. bit w i} \<subseteq> {..<n}" using assms by auto
  then have "card {i. bit w i} \<le> card {..<n}" by (intro card_mono) auto
  then show ?thesis by (simp add: bitsSet_card)
qed

lemma bitRpt_keysDown_le: "bitRpt_keysDown keys \<le> 8 * length keys"
proof (induction keys)
  case Nil
  show ?case by (simp add: bitRpt_keysDown_def)
next
  case (Cons w keys)
  have "bitsSet w \<le> 8" using bitsSet_le [of w 8] bit_imp_le_length [of w] by auto
  with Cons show ?case by (simp add: bitRpt_keysDown_def)
qed

lemma bitRpt_keysDown_update:
  assumes "row < length keys"
  shows "bitRpt_keysDown (keys[row := w]) + bitsSet (keys ! row) = bitRpt_keysDown keys + bitsSet w"
proof -
  have "map bitsSet keys ! row \<in> set (map bitsSet keys)"
    using assms by (intro nth_mem) simp
  then have "map bitsSet keys ! row \<le> sum_list (map bitsSet keys)"
    by (intro member_le_sum_list) auto
  then have "bitsSet (keys ! row) \<le> bitRpt_keysDown keys"
    using assms by (simp add: bitRpt_keysDown_def)
  then show ?thesis
    using assms sum_list_update [of row "map bitsSet keys" "bitsSet w"]
    by (simp add: bitRpt_keysDown_def map_update)
qed

lemma bitRpt_keysDown_replicate: "bitRpt_keysDown (replicate n 0) = 0"
  by (simp add: bitRpt_keysDown_def bitsSet_zero)

lemma bitRpt_inRange_replicate: "bitRpt_inRange n (replicate m 0)"
  by (simp add: bitRpt_inRange_def)

lemma bitRpt_inRange_bound:
  "bitRpt_inRange n keys \<Longrightarrow> bitRpt_keysDown keys \<le> n"
proof (induction keys arbitrary: n rule: rev_induct)
  case Nil
  show ?case by (simp add: bitRpt_keysDown_def)
next
  case (snoc w keys)
  have k: "bitRpt_keysDown (keys @ [w]) = bitRpt_keysDown keys + bitsSet w"
    by (simp add: bitRpt_keysDown_def)
  have w: "\<forall>i. bit w i \<longrightarrow> 8 * length keys + i < n"
    using snoc.prems by (auto simp: bitRpt_inRange_def nth_append split: if_splits)
  show ?case
  proof (cases "8 * length keys \<le> n")
    case True
    from w have "\<forall>i. bit w i \<longrightarrow> i < n - 8 * length keys" by auto
    then have "bitsSet w \<le> n - 8 * length keys" by (rule bitsSet_le)
    with True bitRpt_keysDown_le [of keys] k show ?thesis by simp
  next
    case False
    with w have "\<forall>i. bit w i \<longrightarrow> i < 0" by auto
    then have "bitsSet w \<le> 0" by (rule bitsSet_le)
    moreover have "bitRpt_inRange n keys"
      unfolding bitRpt_inRange_def
    proof (intro allI impI)
      fix row col assume r: "row < length keys" and b: "bit (keys ! row) col"
      from snoc.prems r b show "8 * row + col < n"
        unfolding bitRpt_inRange_def
        by (auto simp: nth_append dest!: spec [of _ row])
    qed
    ultimately show ?thesis using snoc.IH [of n] k by simp
  qed
qed

lemma kbapp_bitRptProcEvtKey_out_of_range:
  "\<not> rowCol < numBitMappedKeys cfg \<Longrightarrow> kbapp_bitRptProcEvtKey cfg ud kc rowCol s = Some s"
  by (simp add: kbapp_bitRptProcEvtKey_def)

lemma kbapp_bitRptProcEvtKey_mask:
  "bitOffsetToByteValue ! unat (rowCol AND 0x07 :: uint8_t) = push_bit (unat rowCol mod 8) 1"
  by (simp add: bitOffsetToByteValue_nth rowCol_col del: push_bit_of_1)

lemma kbapp_bitRptProcEvtKey_eq:
  "kbapp_bitRptProcEvtKey cfg ud kc rowCol s =
     (if rowCol < numBitMappedKeys cfg then
        if unat rowCol div 8 < length (bitMappedReport_bitMappedKeys s) then
          if ud = KEY_DOWN then
            (if \<not> bit (bitMappedReport_bitMappedKeys s ! (unat rowCol div 8)) (unat rowCol mod 8)
             then Some (s\<lparr>bitMappedReport_bitMappedKeys := (bitMappedReport_bitMappedKeys s)
                             [unat rowCol div 8 := bitMappedReport_bitMappedKeys s ! (unat rowCol div 8)
                                OR push_bit (unat rowCol mod 8) 1],
                           keysInBitRpt := keysInBitRpt s + 1, bitRptChanged := True\<rparr>)
             else Some s)
          else
            (if bit (bitMappedReport_bitMappedKeys s ! (unat rowCol div 8)) (unat rowCol mod 8)
             then Some (s\<lparr>bitMappedReport_bitMappedKeys := (bitMappedReport_bitMappedKeys s)
                             [unat rowCol div 8 := bitMappedReport_bitMappedKeys s ! (unat rowCol div 8)
                                AND NOT (push_bit (unat rowCol mod 8) 1)],
                           keysInBitRpt := keysInBitRpt s - 1, bitRptChanged := True\<rparr>)
             else Some s)
        else None
      else Some s)"
proof -
  have m: "\<And>w :: uint8_t. (w AND push_bit (unat rowCol mod 8) 1 = 0) = (\<not> bit w (unat rowCol mod 8))"
    by (simp add: bit_iff_and_push_bit_not_eq_0 del: push_bit_of_1)
  show ?thesis
    by (simp add: kbapp_bitRptProcEvtKey_def Let_def kbapp_bitRptProcEvtKey_mask rowCol_row m
        del: push_bit_of_1)
qed


lemma kbapp_bitRptProcEvtKey_in_array:
  assumes "kbapp_bitRptProcEvtKey cfg ud kc rowCol s = Some s'" "rowCol < numBitMappedKeys cfg"
  shows "unat rowCol div 8 < length (bitMappedReport_bitMappedKeys s)"
proof (rule ccontr)
  assume "\<not> unat rowCol div 8 < length (bitMappedReport_bitMappedKeys s)"
  with assms(2) have "kbapp_bitRptProcEvtKey cfg ud kc rowCol s = None"
    by (simp only: kbapp_bitRptProcEvtKey_eq if_True if_False)
  with assms(1) show False by simp
qed

lemma kbapp_bitRptProcEvtKey_set:
  assumes "rowCol < numBitMappedKeys cfg" "unat rowCol div 8 < length (bitMappedReport_bitMappedKeys s)"
    "\<not> bit (bitMappedReport_bitMappedKeys s ! (unat rowCol div 8)) (unat rowCol mod 8)"
  shows "kbapp_bitRptProcEvtKey cfg KEY_DOWN kc rowCol s =
     Some (s\<lparr>bitMappedReport_bitMappedKeys := (bitMappedReport_bitMappedKeys s)
                [unat rowCol div 8 := bitMappedReport_bitMappedKeys s ! (unat rowCol div 8)
                   OR push_bit (unat rowCol mod 8) 1],
              keysInBitRpt := keysInBitRpt s + 1, bitRptChanged := True\<rparr>)"
  using assms by (simp only: kbapp_bitRptProcEvtKey_eq if_True if_False simp_thms)

lemma kbapp_bitRptProcEvtKey_clear:
  assumes "rowCol < numBitMappedKeys cfg" "unat rowCol div 8 < length (bitMappedReport_bitMappedKeys s)"
    "ud \<noteq> KEY_DOWN"
    "bit (bitMappedReport_bitMappedKeys s ! (unat rowCol div 8)) (unat rowCol mod 8)"
  shows "kbapp_bitRptProcEvtKey cfg ud kc rowCol s =
     Some (s\<lparr>bitMappedReport_bitMappedKeys := (bitMappedReport_bitMappedKeys s)
                [unat rowCol div 8 := bitMappedReport_bitMappedKeys s ! (unat rowCol div 8)
                   AND NOT (push_bit (unat rowCol mod 8) 1)],
              keysInBitRpt := keysInBitRpt s - 1, bitRptChanged := True\<rparr>)"
  using assms by (simp only: kbapp_bitRptProcEvtKey_eq if_True if_False simp_thms)

lemma kbapp_bitRptProcEvtKey_down_same:
  assumes "kbapp_bitRptProcEvtKey cfg KEY_DOWN kc rowCol s = Some s'"
    "bit (bitMappedReport_bitMappedKeys s ! (unat rowCol div 8)) (unat rowCol mod 8)"
  shows "s' = s"
proof (cases "rowCol < numBitMappedKeys cfg")
  case True
  from kbapp_bitRptProcEvtKey_in_array [OF assms(1) True] True assms(2)
  have "kbapp_bitRptProcEvtKey cfg KEY_DOWN kc rowCol s = Some s"
    by (simp only: kbapp_bitRptProcEvtKey_eq if_True if_False simp_thms)
  with assms(1) show ?thesis by simp
next
  case False
  then have "kbapp_bitRptProcEvtKey cfg KEY_DOWN kc rowCol s = Some s"
    by (rule kbapp_bitRptProcEvtKey_out_of_range)
  with assms(1) show ?thesis by simp
qed

lemma kbapp_bitRptProcEvtKey_up_same:
  assumes "kbapp_bitRptProcEvtKey cfg ud kc rowCol s = Some s'" "ud \<noteq> KEY_DOWN"
    "\<not> bit (bitMappedReport_bitMappedKeys s ! (unat rowCol div 8)) (unat rowCol mod 8)"
  shows "s' = s"
proof (cases "rowCol < numBitMappedKeys cfg")
  case True
  from kbapp_bitRptProcEvtKey_in_array [OF assms(1) True] True assms(2) assms(3)
  have "kbapp_bitRptProcEvtKey cfg ud kc rowCol s = Some s"
    by (simp only: kbapp_bitRptProcEvtKey_eq if_True if_False simp_thms)
  with assms(1) show ?thesis by simp
next
  case False
  then have "kbapp_bitRptProcEvtKey cfg ud kc rowCol s = Some s"
    by (rule kbapp_bitRptProcEvtKey_out_of_range)
  with assms(1) show ?thesis by simp
qed

lemma bitRpt_key_down_invariant:
  assumes c: "unat cnt = bitRpt_keysDown keys" and i: "bitRpt_inRange (unat n) keys"
    and n: "rowCol < (n :: uint8_t)" and r: "unat rowCol div 8 < length keys"
    and b: "\<not> bit (keys ! (unat rowCol div 8)) (unat rowCol mod 8)"
  defines "keys' \<equiv> keys[unat rowCol div 8 := keys ! (unat rowCol div 8) OR push_bit (unat rowCol mod 8) 1]"
  shows "unat (cnt + 1 :: uint8_t) = bitRpt_keysDown keys' \<and> bitRpt_inRange (unat n) keys'
    \<and> unat (cnt + 1) = unat cnt + 1"
proof -
  let ?row = "unat rowCol div 8" and ?col = "unat rowCol mod 8"
  have p: "unat rowCol < unat n" using n by (simp add: word_less_nat_alt)
  have i': "bitRpt_inRange (unat n) keys'"
    unfolding bitRpt_inRange_def
  proof (intro allI impI)
    fix row col assume row: "row < length keys'" and bt: "bit (keys' ! row) col"
    show "8 * row + col < unat n"
    proof (cases "row = ?row")
      case True
      with bt r have "bit (keys ! ?row) col \<or> col = ?col"
        by (auto simp: keys'_def bit_simps)
      then show ?thesis
      proof
        assume "bit (keys ! ?row) col"
        with i r True show ?thesis by (simp add: bitRpt_inRange_def)
      next
        assume "col = ?col"
        with True p show ?thesis by simp
      qed
    next
      case False
      with bt row i show ?thesis by (simp add: keys'_def bitRpt_inRange_def)
    qed
  qed
  have "bitRpt_keysDown keys' + bitsSet (keys ! ?row)
          = bitRpt_keysDown keys + bitsSet (keys ! ?row OR push_bit ?col 1)"
    unfolding keys'_def using r by (rule bitRpt_keysDown_update)
  moreover have "bitsSet (keys ! ?row OR push_bit ?col 1) = bitsSet (keys ! ?row) + 1"
    using b by (intro bitsSet_set) simp_all
  ultimately have k: "bitRpt_keysDown keys' = bitRpt_keysDown keys + 1" by simp
  have "bitRpt_keysDown keys' \<le> unat n" using i' by (rule bitRpt_inRange_bound)
  moreover have "unat n < 256" using unsigned_less [of n, where 'a = nat] by simp
  ultimately have "unat cnt < 255" using k c by simp
  then have "unat (cnt + 1) = unat cnt + unat (1 :: uint8_t)"
    by (intro unat_add_lem [THEN iffD1]) simp
  then have u: "unat (cnt + 1) = unat cnt + 1" by simp
  with k c i' show ?thesis by simp
qed

lemma bitRpt_key_up_invariant:
  assumes c: "unat cnt = bitRpt_keysDown keys" and i: "bitRpt_inRange n keys"
    and r: "unat rowCol div 8 < length keys"
    and b: "bit (keys ! (unat rowCol div 8)) (unat rowCol mod 8)"
  defines "keys' \<equiv> keys[unat rowCol div 8 := keys ! (unat rowCol div 8) AND NOT (push_bit (unat rowCol mod 8) 1)]"
  shows "unat (cnt - 1 :: uint8_t) = bitRpt_keysDown keys' \<and> bitRpt_inRange n keys'
    \<and> unat (cnt - 1) + 1 = unat cnt"
proof -
  let ?row = "unat rowCol div 8" and ?col = "unat rowCol mod 8"
  have i': "bitRpt_inRange n keys'"
    unfolding bitRpt_inRange_def
  proof (intro allI impI)
    fix row col assume row: "row < length keys'" and bt: "bit (keys' ! row) col"
    show "8 * row + col < n"
    proof (cases "row = ?row")
      case True
      with bt r have "bit (keys ! ?row) col" by (auto simp: keys'_def bit_simps)
      with i r True show ?thesis by (simp add: bitRpt_inRange_def)
    next
      case False
      with bt row i show ?thesis by (simp add: keys'_def bitRpt_inRange_def)
    qed
  qed
  have "bitRpt_keysDown keys' + bitsSet (keys ! ?row)
          = bitRpt_keysDown keys + bitsSet (keys ! ?row AND NOT (push_bit ?col 1))"
    unfolding keys'_def using r by (rule bitRpt_keysDown_update)
  moreover have "bitsSet (keys ! ?row AND NOT (push_bit ?col 1)) + 1 = bitsSet (keys ! ?row)"
    using b by (rule bitsSet_unset)
  ultimately have k: "bitRpt_keysDown keys' + 1 = bitRpt_keysDown keys" by simp
  with c have "unat cnt \<noteq> 0" by simp
  then have "cnt \<noteq> 0" by auto
  then have u: "unat (cnt - 1) = unat cnt - 1" by (rule unat_minus_one)
  with k c i' show ?thesis by simp
qed

lemma bitRpt_reachable_invariant:
  "bitRpt_reachable cfg s \<Longrightarrow>
     unat (keysInBitRpt s) = bitRpt_keysDown (bitMappedReport_bitMappedKeys s) \<and>
     bitRpt_inRange (unat (numBitMappedKeys cfg)) (bitMappedReport_bitMappedKeys s)"
proof (induction rule: bitRpt_reachable.induct)
  case (power_on n1 n2 n3)
  show ?case
    by (simp add: dual_mode_keyboard_application_state_def bitRpt_keysDown_replicate
        bitRpt_inRange_replicate)
next
  case (cleared s)
  show ?case
    by (simp add: kbapp_bitRptClear_def bitRpt_keysDown_replicate bitRpt_inRange_replicate)
next
  case (key s upDownFlag keyCode rowCol s')
  let ?keys = "bitMappedReport_bitMappedKeys s"
  let ?row = "unat rowCol div 8" and ?col = "unat rowCol mod 8"
  from key.IH have c: "unat (keysInBitRpt s) = bitRpt_keysDown ?keys"
    and i: "bitRpt_inRange (unat (numBitMappedKeys cfg)) ?keys" by simp_all
  show ?case
  proof (cases "rowCol < numBitMappedKeys cfg")
    case False
    then have "kbapp_bitRptProcEvtKey cfg upDownFlag keyCode rowCol s = Some s"
      by (rule kbapp_bitRptProcEvtKey_out_of_range)
    with key.hyps(2) have "s' = s" by simp
    with c i show ?thesis by simp
  next
    case n: True
    note r = kbapp_bitRptProcEvtKey_in_array [OF key.hyps(2) n]
    show ?thesis
    proof (cases "upDownFlag = KEY_DOWN")
      case d: True
      show ?thesis
      proof (cases "bit (?keys ! ?row) ?col")
        case True
        from key.hyps(2) d have "kbapp_bitRptProcEvtKey cfg KEY_DOWN keyCode rowCol s = Some s'"
          by simp
        then have "s' = s" using True by (rule kbapp_bitRptProcEvtKey_down_same)
        with c i show ?thesis by simp
      next
        case False
        from kbapp_bitRptProcEvtKey_set [OF n r False, of keyCode] key.hyps(2) d
        have "s' = s\<lparr>bitMappedReport_bitMappedKeys := ?keys[?row := ?keys ! ?row OR push_bit ?col 1],
                  keysInBitRpt := keysInBitRpt s + 1, bitRptChanged := True\<rparr>"
          by simp
        with bitRpt_key_down_invariant [OF c i n r False] show ?thesis by simp
      qed
    next
      case u: False
      show ?thesis
      proof (cases "bit (?keys ! ?row) ?col")
        case True
        from kbapp_bitRptProcEvtKey_clear [OF n r u True, of keyCode] key.hyps(2)
        have "s' = s\<lparr>bitMappedReport_bitMappedKeys := ?keys[?row := ?keys ! ?row AND NOT (push_bit ?col 1)],
                  keysInBitRpt := keysInBitRpt s - 1, bitRptChanged := True\<rparr>"
          by simp
        with bitRpt_key_up_invariant [OF c i r True] show ?thesis by simp
      next
        case False
        from key.hyps(2) u False have "s' = s" by (rule kbapp_bitRptProcEvtKey_up_same)
        with c i show ?thesis by simp
      qed
    qed
  qed
next
  case (other s s')
  then show ?case by simp
qed



text \<open>
  C9. In every state that the code reaches from power-on, \<^verbatim>\<open>keysInBitRpt\<close> is the
  number of bits set in \<^verbatim>\<open>bitMappedReport.bitMappedKeys\<close>. From such a state,
  \<^verbatim>\<open>kbapp_bitRptProcEvtKey\<close> with a \<open>rowCol\<close> below \<^verbatim>\<open>numBitMappedKeys\<close> sets
  bit \<open>rowCol mod 8\<close> of byte \<open>rowCol div 8\<close> and takes the counter up by one on a key-down
  that finds the bit clear, clears the bit and takes the counter down by one on a key-up
  that finds it set, and leaves the state as it is otherwise. A \<open>rowCol\<close> that is not
  below \<^verbatim>\<open>numBitMappedKeys\<close> leaves every state as it is, and when the array has a bit
  for each of the \<^verbatim>\<open>numBitMappedKeys\<close> keys no call reads or writes past the array.
  \<^verbatim>\<open>kbapp_bitRptClear\<close>
  leaves a counter of zero and an array of the same size with no bit set, and so does
  power-on.
\<close>

theorem kbapp_bitRpt_counter_invariant:
  "(bitRpt_reachable cfg s \<longrightarrow>
      unat (keysInBitRpt s) = bitRpt_keysDown (bitMappedReport_bitMappedKeys s)) \<and>
   (bitRpt_reachable cfg s \<and> kbapp_bitRptProcEvtKey cfg upDownFlag keyCode rowCol s = Some s' \<longrightarrow>
      (let keys = bitMappedReport_bitMappedKeys s;
           row = unat rowCol div 8; col = unat rowCol mod 8
       in if rowCol < numBitMappedKeys cfg \<and> upDownFlag = KEY_DOWN \<and> \<not> bit (keys ! row) col
          then bitMappedReport_bitMappedKeys s' = keys[row := set_bit col (keys ! row)] \<and>
               unat (keysInBitRpt s') = unat (keysInBitRpt s) + 1
          else if rowCol < numBitMappedKeys cfg \<and> upDownFlag \<noteq> KEY_DOWN \<and> bit (keys ! row) col
          then bitMappedReport_bitMappedKeys s' = keys[row := unset_bit col (keys ! row)] \<and>
               unat (keysInBitRpt s') + 1 = unat (keysInBitRpt s)
          else s' = s)) \<and>
   (\<not> rowCol < numBitMappedKeys cfg \<longrightarrow>
      kbapp_bitRptProcEvtKey cfg upDownFlag keyCode rowCol s = Some s) \<and>
   (unat (numBitMappedKeys cfg) \<le> 8 * length (bitMappedReport_bitMappedKeys s) \<longrightarrow>
      (\<exists>s'. kbapp_bitRptProcEvtKey cfg upDownFlag keyCode rowCol s = Some s')) \<and>
   keysInBitRpt (kbapp_bitRptClear cfg s) = 0 \<and>
   length (bitMappedReport_bitMappedKeys (kbapp_bitRptClear cfg s)) =
     length (bitMappedReport_bitMappedKeys s) \<and>
   bitRpt_keysDown (bitMappedReport_bitMappedKeys (kbapp_bitRptClear cfg s)) = 0 \<and>
   keysInBitRpt (dual_mode_keyboard_application_state n1 n2 n3) = 0 \<and>
   bitRpt_keysDown (bitMappedReport_bitMappedKeys (dual_mode_keyboard_application_state n1 n2 n3)) = 0"
proof (intro conjI impI)
  assume "bitRpt_reachable cfg s"
  then show "unat (keysInBitRpt s) = bitRpt_keysDown (bitMappedReport_bitMappedKeys s)"
    by (rule bitRpt_reachable_invariant [THEN conjunct1])
next
  let ?keys = "bitMappedReport_bitMappedKeys s"
  let ?row = "unat rowCol div 8" and ?col = "unat rowCol mod 8"
  assume a: "bitRpt_reachable cfg s \<and> kbapp_bitRptProcEvtKey cfg upDownFlag keyCode rowCol s = Some s'"
  then have k: "kbapp_bitRptProcEvtKey cfg upDownFlag keyCode rowCol s = Some s'" by simp
  from a bitRpt_reachable_invariant [of cfg s]
  have c: "unat (keysInBitRpt s) = bitRpt_keysDown ?keys"
    and i: "bitRpt_inRange (unat (numBitMappedKeys cfg)) ?keys" by simp_all
  have sb: "set_bit ?col (?keys ! ?row) = ?keys ! ?row OR push_bit ?col 1"
    by (simp add: set_bit_eq_or)
  have ub: "unset_bit ?col (?keys ! ?row) = ?keys ! ?row AND NOT (push_bit ?col 1)"
    by (simp add: unset_bit_eq_and_not)
  consider (down) "rowCol < numBitMappedKeys cfg" "upDownFlag = KEY_DOWN" "\<not> bit (?keys ! ?row) ?col"
    | (up) "rowCol < numBitMappedKeys cfg" "upDownFlag \<noteq> KEY_DOWN" "bit (?keys ! ?row) ?col"
    | (bounds) "\<not> rowCol < numBitMappedKeys cfg"
    | (down_same) "upDownFlag = KEY_DOWN" "bit (?keys ! ?row) ?col"
    | (up_same) "upDownFlag \<noteq> KEY_DOWN" "\<not> bit (?keys ! ?row) ?col"
    by blast
  then show "let keys = bitMappedReport_bitMappedKeys s;
           row = unat rowCol div 8; col = unat rowCol mod 8
       in if rowCol < numBitMappedKeys cfg \<and> upDownFlag = KEY_DOWN \<and> \<not> bit (keys ! row) col
          then bitMappedReport_bitMappedKeys s' = keys[row := set_bit col (keys ! row)] \<and>
               unat (keysInBitRpt s') = unat (keysInBitRpt s) + 1
          else if rowCol < numBitMappedKeys cfg \<and> upDownFlag \<noteq> KEY_DOWN \<and> bit (keys ! row) col
          then bitMappedReport_bitMappedKeys s' = keys[row := unset_bit col (keys ! row)] \<and>
               unat (keysInBitRpt s') + 1 = unat (keysInBitRpt s)
          else s' = s"
  proof cases
    case down
    note r = kbapp_bitRptProcEvtKey_in_array [OF k down(1)]
    from kbapp_bitRptProcEvtKey_set [OF down(1) r down(3), of keyCode] k down(2)
    have "s' = s\<lparr>bitMappedReport_bitMappedKeys := ?keys[?row := ?keys ! ?row OR push_bit ?col 1],
              keysInBitRpt := keysInBitRpt s + 1, bitRptChanged := True\<rparr>"
      by simp
    with bitRpt_key_down_invariant [OF c i down(1) r down(3)] down sb
    show ?thesis by (simp add: Let_def del: push_bit_of_1)
  next
    case up
    note r = kbapp_bitRptProcEvtKey_in_array [OF k up(1)]
    from kbapp_bitRptProcEvtKey_clear [OF up(1) r up(2) up(3), of keyCode] k
    have "s' = s\<lparr>bitMappedReport_bitMappedKeys := ?keys[?row := ?keys ! ?row AND NOT (push_bit ?col 1)],
              keysInBitRpt := keysInBitRpt s - 1, bitRptChanged := True\<rparr>"
      by simp
    with bitRpt_key_up_invariant [OF c i r up(3)] up ub
    show ?thesis by (simp add: Let_def del: push_bit_of_1)
  next
    case bounds
    then have "kbapp_bitRptProcEvtKey cfg upDownFlag keyCode rowCol s = Some s"
      by (rule kbapp_bitRptProcEvtKey_out_of_range)
    with k have "s' = s" by simp
    with bounds show ?thesis by (simp add: Let_def)
  next
    case down_same
    from k down_same(1) have "kbapp_bitRptProcEvtKey cfg KEY_DOWN keyCode rowCol s = Some s'" by simp
    then have "s' = s" using down_same(2) by (rule kbapp_bitRptProcEvtKey_down_same)
    with down_same show ?thesis by (simp add: Let_def)
  next
    case up_same
    from k up_same have "s' = s" by (rule kbapp_bitRptProcEvtKey_up_same)
    with up_same show ?thesis by (simp add: Let_def)
  qed
next
  assume "\<not> rowCol < numBitMappedKeys cfg"
  then show "kbapp_bitRptProcEvtKey cfg upDownFlag keyCode rowCol s = Some s"
    by (rule kbapp_bitRptProcEvtKey_out_of_range)
next
  assume n: "unat (numBitMappedKeys cfg) \<le> 8 * length (bitMappedReport_bitMappedKeys s)"
  show "\<exists>s'. kbapp_bitRptProcEvtKey cfg upDownFlag keyCode rowCol s = Some s'"
  proof (cases "rowCol < numBitMappedKeys cfg")
    case True
    then have "unat rowCol < unat (numBitMappedKeys cfg)" by (simp add: word_less_nat_alt)
    with n have "unat rowCol div 8 < length (bitMappedReport_bitMappedKeys s)" by simp
    with True show ?thesis by (simp add: kbapp_bitRptProcEvtKey_eq del: push_bit_of_1)
  next
    case False
    then have "kbapp_bitRptProcEvtKey cfg upDownFlag keyCode rowCol s = Some s"
      by (rule kbapp_bitRptProcEvtKey_out_of_range)
    then show ?thesis by simp
  qed
next
  show "keysInBitRpt (kbapp_bitRptClear cfg s) = 0" by (simp add: kbapp_bitRptClear_def)
next
  show "length (bitMappedReport_bitMappedKeys (kbapp_bitRptClear cfg s)) =
     length (bitMappedReport_bitMappedKeys s)" by (simp add: kbapp_bitRptClear_def)
next
  show "bitRpt_keysDown (bitMappedReport_bitMappedKeys (kbapp_bitRptClear cfg s)) = 0"
    by (simp add: kbapp_bitRptClear_def bitRpt_keysDown_replicate)
next
  show "keysInBitRpt (dual_mode_keyboard_application_state n1 n2 n3) = 0"
    by (simp add: dual_mode_keyboard_application_state_def)
next
  show "bitRpt_keysDown (bitMappedReport_bitMappedKeys (dual_mode_keyboard_application_state n1 n2 n3)) = 0"
    by (simp add: dual_mode_keyboard_application_state_def bitRpt_keysDown_replicate)
qed

theorem kbapp_bitRpt_counter_invariant_witness:
  "bitRpt_reachable kbAppConfig_sample kbAppState_sample \<and>
   kbapp_bitRptProcEvtKey kbAppConfig_sample KEY_DOWN 5 10 kbAppState_sample =
     Some (kbAppState_sample\<lparr>bitMappedReport_bitMappedKeys := [0, 4, 0], keysInBitRpt := 1,
             bitRptChanged := True\<rparr>) \<and>
   bitRpt_reachable kbAppConfig_sample
     (kbAppState_sample\<lparr>bitMappedReport_bitMappedKeys := [0, 4, 0], keysInBitRpt := 1,
        bitRptChanged := True\<rparr>) \<and>
   bitRpt_keysDown [0, 4, 0 :: uint8_t] = 1"
proof -
  let ?cfg = kbAppConfig_sample
  let ?t = "kbAppState_sample\<lparr>bitMappedReport_bitMappedKeys := [0, 4, 0], keysInBitRpt := 1,
             bitRptChanged := True\<rparr>"
  have r: "bitRpt_reachable ?cfg kbAppState_sample"
    unfolding kbAppState_sample_def by (rule bitRpt_reachable.power_on)
  have n: "numBitMappedKeys ?cfg = 18" by (simp add: kbAppConfig_sample_def)
  have ks: "bitMappedReport_bitMappedKeys kbAppState_sample = [0, 0, 0]"
    "keysInBitRpt kbAppState_sample = 0"
    by (simp_all add: kbAppState_sample_def dual_mode_keyboard_application_state_def numeral_3_eq_3)
  have k: "kbapp_bitRptProcEvtKey ?cfg KEY_DOWN 5 10 kbAppState_sample = Some ?t"
    by (simp add: kbapp_bitRptProcEvtKey_def Let_def n ks bitOffsetToByteValue_def drop_bit_eq_div)
  from r k have r': "bitRpt_reachable ?cfg ?t" by (rule bitRpt_reachable.key)
  from kbapp_bitRpt_counter_invariant [of ?cfg ?t, THEN conjunct1, THEN mp, OF r']
  have "bitRpt_keysDown [0, 4, 0 :: uint8_t] = 1" by simp
  with r k r' show ?thesis by (intro conjI)
qed

end
